theory Spec2Isabelle
  imports Complex_Main "HOL-Library.Sublist"
begin

section \<open>Text primitives of the Python runtime\<close>

text \<open>
  Python's \<open>str\<close> is a sequence of code points. The model uses \<open>string\<close> (a list of
  8-bit \<open>char\<close>s) and reads each \<open>char\<close> as one code point of the alphabet
  U+0000..U+00FF, with one relabelling: position 0x95 stands for the bullet U+2022,
  the one character beyond U+00FF that the modelled functions inspect (U+0095 and
  U+2022 agree on every predicate used below: neither is whitespace, neither is a digit,
  both are their own lowercase). On this alphabet \<open>str.lower\<close>, \<open>str.isspace\<close> and
  \<open>str.isdigit\<close> are modelled exactly; text with other code points is outside the model.
  Scores are Python floats in the source and \<open>real\<close> here.
\<close>

definition is_space :: "char \<Rightarrow> bool" where
  \<comment> \<open>\<open>str.isspace\<close> on one character: TAB..CR, FS..US, SPACE, NEL, NBSP.\<close>
  "is_space c = (let n = (of_char c :: nat) in
     (9 \<le> n \<and> n \<le> 13) \<or> (28 \<le> n \<and> n \<le> 32) \<or> n = 133 \<or> n = 160)"

definition lower_char :: "char \<Rightarrow> char" where
  \<comment> \<open>\<open>str.lower\<close> on one character: A..Z and the Latin-1 capitals (not the multiplication sign).\<close>
  "lower_char c = (let n = (of_char c :: nat) in
     if (65 \<le> n \<and> n \<le> 90) \<or> (192 \<le> n \<and> n \<le> 222 \<and> n \<noteq> 215)
     then char_of (n + 32) else c)"

definition lower :: "string \<Rightarrow> string" where
  "lower s = map lower_char s"

text \<open>
  \<open>str.split()\<close> without arguments: maximal runs of non-whitespace characters, in
  order; leading, trailing and repeated whitespace produce no empty word.
  \<open>split_acc cur s\<close> scans \<open>s\<close> with the word read so far in \<open>cur\<close>.
\<close>

fun split_acc :: "string \<Rightarrow> string \<Rightarrow> string list" where
  "split_acc cur [] = (if cur = [] then [] else [cur])"
| "split_acc cur (c # cs) =
     (if is_space c
      then (if cur = [] then split_acc [] cs else cur # split_acc [] cs)
      else split_acc (cur @ [c]) cs)"

definition split_ws :: "string \<Rightarrow> string list" where
  "split_ws s = split_acc [] s"

text \<open>
  \<open>str.split(sep)\<close> with a non-empty separator: the text is cut at each occurrence of
  \<open>sep\<close>, found from left to right without overlap; the result always has at least one
  piece. \<open>split_scan sep k cur s\<close> scans \<open>s\<close> with the piece read so far in \<open>cur\<close>;
  \<open>k\<close> counts the characters of a separator just recognised that remain to be skipped.
\<close>

fun split_scan :: "string \<Rightarrow> nat \<Rightarrow> string \<Rightarrow> string \<Rightarrow> string list" where
  "split_scan sep k cur [] = [cur]"
| "split_scan sep (Suc k) cur (c # cs) = split_scan sep k cur cs"
| "split_scan sep 0 cur (c # cs) =
     (if prefix sep (c # cs) then cur # split_scan sep (length sep - 1) [] cs
      else split_scan sep 0 (cur @ [c]) cs)"

definition split_str :: "string \<Rightarrow> string \<Rightarrow> string list" where
  "split_str sep s = split_scan sep 0 [] s"

text \<open>\<open>str(n)\<close> for a non-negative integer: its decimal digits, most significant first.\<close>

fun str_nat :: "nat \<Rightarrow> string" where
  "str_nat n =
     (if n < 10 then [char_of (48 + n)]
      else str_nat (n div 10) @ [char_of (48 + n mod 10)])"

declare str_nat.simps [simp del]

definition decimal_value :: "string \<Rightarrow> nat" where
  \<comment> \<open>The number a string of decimal digits denotes; used to read \<open>str_nat\<close> back.\<close>
  "decimal_value ds = foldl (\<lambda>acc d. 10 * acc + (of_char d - 48)) 0 ds"

text \<open>\<open>str.rfind(c)\<close> for one character: the last index of \<open>c\<close>, \<open>None\<close> for Python's -1.\<close>

fun rfind :: "char \<Rightarrow> string \<Rightarrow> nat option" where
  "rfind c [] = None"
| "rfind c (x # xs) =
     (case rfind c xs of
        Some i \<Rightarrow> Some (Suc i)
      | None \<Rightarrow> if x = c then Some 0 else None)"

section \<open>evaluator.py\<close>

definition clamp01 :: "real \<Rightarrow> real" where
  \<comment> \<open>\<open>max(0.0, min(1.0, x))\<close>\<close>
  "clamp01 x = max 0 (min 1 x)"

definition calculate_wer :: "string \<Rightarrow> string \<Rightarrow> real" where
  "calculate_wer reference hypothesis =
     (let ref_words = split_ws (lower reference);
          hyp_words = split_ws (lower hypothesis)
      in if length ref_words = 0
         then (if length hyp_words > 0 then 1 else 0)
         else let common_words = set ref_words \<inter> set hyp_words;
                  wer = 1 - real (card common_words) / real (length ref_words)
              in clamp01 wer)"

definition calculate_cer :: "string \<Rightarrow> string \<Rightarrow> real" where
  "calculate_cer reference hypothesis =
     (if length reference = 0
      then (if length hypothesis > 0 then 1 else 0)
      else let common_chars =
                 length (filter (\<lambda>(a, b). a = b) (zip (lower reference) (lower hypothesis)));
               cer = 1 - real common_chars / real (length reference)
           in clamp01 cer)"

definition calculate_bleu :: "string \<Rightarrow> string \<Rightarrow> real" where
  "calculate_bleu reference hypothesis =
     (let ref_words = set (split_ws (lower reference));
          hyp_words = set (split_ws (lower hypothesis))
      in if card hyp_words = 0 then 0
         else real (card (ref_words \<inter> hyp_words)) / real (card hyp_words))"

definition calculate_rouge_1 :: "string \<Rightarrow> string \<Rightarrow> real" where
  "calculate_rouge_1 reference hypothesis =
     (let ref_words = set (split_ws (lower reference));
          hyp_words = set (split_ws (lower hypothesis))
      in if card ref_words = 0 then 0
         else real (card (ref_words \<inter> hyp_words)) / real (card ref_words))"

definition get_bigrams :: "string \<Rightarrow> (string \<times> string) list" where
  "get_bigrams text =
     (let words = split_ws text
      in map (\<lambda>i. (words ! i, words ! (i + 1))) [0 ..< length words - 1])"

definition calculate_rouge_2 :: "string \<Rightarrow> string \<Rightarrow> real" where
  "calculate_rouge_2 reference hypothesis =
     (let ref_bigrams = get_bigrams (lower reference);
          hyp_bigrams = get_bigrams (lower hypothesis)
      in if length ref_bigrams = 0 then 0
         else real (card (set ref_bigrams \<inter> set hyp_bigrams)) / real (length ref_bigrams))"

definition calculate_rouge_l :: "string \<Rightarrow> string \<Rightarrow> real" where
  "calculate_rouge_l reference hypothesis = calculate_rouge_1 reference hypothesis"

definition calculate_semantic_similarity :: "string \<Rightarrow> string \<Rightarrow> real" where
  "calculate_semantic_similarity reference hypothesis = calculate_rouge_1 reference hypothesis"

record transcription_metrics =
  word_error_rate :: real
  character_error_rate :: real
  bleu_score :: real
  accuracy :: real

record summarization_metrics =
  rouge_1 :: real
  rouge_2 :: real
  rouge_l :: real
  semantic_similarity :: real

text \<open>
  Both entry points build their dictionary inside \<open>try\<close> and return \<open>{}\<close> on an
  exception. On two \<open>str\<close> arguments none of the metric functions raises (every
  division is guarded by the test before it), so the dictionary is always the full one.
\<close>

definition evaluate_transcription :: "string \<Rightarrow> string \<Rightarrow> transcription_metrics" where
  "evaluate_transcription reference hypothesis =
     \<lparr> word_error_rate = calculate_wer reference hypothesis,
       character_error_rate = calculate_cer reference hypothesis,
       bleu_score = calculate_bleu reference hypothesis,
       accuracy = 1 - calculate_wer reference hypothesis \<rparr>"

definition evaluate_summarization :: "string \<Rightarrow> string \<Rightarrow> summarization_metrics" where
  "evaluate_summarization reference hypothesis =
     \<lparr> rouge_1 = calculate_rouge_1 reference hypothesis,
       rouge_2 = calculate_rouge_2 reference hypothesis,
       rouge_l = calculate_rouge_l reference hypothesis,
       semantic_similarity = calculate_semantic_similarity reference hypothesis \<rparr>"

subsection \<open>The formulas of the specification, for comparison\<close>

text \<open>
  The two definitions below follow the words of the specification, not the code: the word
  error rate with the number of \<^emph>\<open>distinct\<close> reference words as denominator, and ROUGE-2
  with the number of \<^emph>\<open>distinct\<close> reference word pairs as denominator.
\<close>

definition consecutive_pairs :: "'a list \<Rightarrow> ('a \<times> 'a) list" where
  "consecutive_pairs ws = zip ws (tl ws)"

definition spec_wer :: "string \<Rightarrow> string \<Rightarrow> real" where
  "spec_wer reference hypothesis =
     (let R = set (split_ws (lower reference));
          H = set (split_ws (lower hypothesis))
      in if card R = 0 then (if card H > 0 then 1 else 0)
         else clamp01 (1 - real (card (R \<inter> H)) / real (card R)))"

definition spec_rouge_2 :: "string \<Rightarrow> string \<Rightarrow> real" where
  "spec_rouge_2 reference hypothesis =
     (let R = set (consecutive_pairs (split_ws (lower reference)));
          H = set (consecutive_pairs (split_ws (lower hypothesis)))
      in if length (split_ws (lower reference)) < 2 then 0
         else real (card (R \<inter> H)) / real (card R))"

section \<open>summarizer.py: the duration estimate\<close>

definition estimate_duration :: "string \<Rightarrow> string" where
  "estimate_duration transcript =
     (let word_count = length (split_ws transcript);
          duration_minutes = max 1 (word_count div 150)
      in str_nat duration_minutes @ '' minutes'')"

section \<open>audio_processor.py\<close>

text \<open>
  \<open>validate_file\<close> reads \<open>Path(file_path).suffix\<close>. The two \<open>pathlib\<close> properties it
  rests on are modelled for POSIX paths as Python 3.8 to 3.13 define them:
  \<open>name\<close> is the last component of the path, where components are separated by \<open>/\<close>
  and empty components and \<open>.\<close> components do not count (the name is empty when there
  is none); \<open>suffix\<close> is the name from its last dot on, provided that dot is neither the
  first nor the last character of the name, and empty otherwise.
\<close>

definition path_name :: "string \<Rightarrow> string" where
  "path_name file_path =
     (case filter (\<lambda>x. x \<noteq> [] \<and> x \<noteq> ''.'') (split_str ''/'' file_path) of
        [] \<Rightarrow> []
      | parts \<Rightarrow> last parts)"

definition path_suffix :: "string \<Rightarrow> string" where
  "path_suffix file_path =
     (let name = path_name file_path in
      case rfind CHR ''.'' name of
        None \<Rightarrow> []
      | Some i \<Rightarrow> if 0 < i \<and> i < length name - 1 then drop i name else [])"

definition supported_formats :: "string list" where
  "supported_formats = [''.mp3'', ''.wav'', ''.mp4'', ''.avi'', ''.mov'', ''.mkv'']"

definition validate_file :: "string \<Rightarrow> bool" where
  "validate_file file_path =
     (let file_ext = lower (path_suffix file_path) in file_ext \<in> set supported_formats)"

section \<open>summarizer.py: generating the minutes\<close>

subsection \<open>Further text primitives\<close>

definition strip :: "string \<Rightarrow> string" where
  \<comment> \<open>\<open>str.strip()\<close>: whitespace removed at both ends.\<close>
  "strip s = rev (dropWhile is_space (rev (dropWhile is_space s)))"

definition lstrip_chars :: "string \<Rightarrow> string \<Rightarrow> string" where
  \<comment> \<open>\<open>str.lstrip(chars)\<close>: leading characters that occur in \<open>chars\<close> removed.\<close>
  "lstrip_chars chars s = dropWhile (\<lambda>c. c \<in> set chars) s"

definition is_digit :: "char \<Rightarrow> bool" where
  \<comment> \<open>the digits 0..9 and the superscripts two, three and one\<close>
  "is_digit c = (let n = (of_char c :: nat) in
     (48 \<le> n \<and> n \<le> 57) \<or> n = 178 \<or> n = 179 \<or> n = 185)"

definition isdigit :: "string \<Rightarrow> bool" where
  \<comment> \<open>\<open>str.isdigit()\<close>: at least one character, and all of them digits.\<close>
  "isdigit s = (s \<noteq> [] \<and> list_all is_digit s)"

definition str_int :: "int \<Rightarrow> string" where
  "str_int i = (if i < 0 then CHR ''-'' # str_nat (nat (- i)) else str_nat (nat i))"

definition nl :: string where
  "nl = [CHR 0x0A]"

definition dq :: string where
  "dq = [CHR 0x22]"

definition bullet :: char where
  \<comment> \<open>the bullet U+2022, at the position the alphabet of this model gives it\<close>
  "bullet = CHR 0x95"

definition ind :: string where
  \<comment> \<open>the eight spaces that indent every line of the source's multi-line literals\<close>
  "ind = ''        ''"

subsection \<open>Data\<close>

text \<open>
  Python values of the kinds a minutes record is built from: text, lists, and
  dictionaries with text keys (an association list in insertion order).
\<close>

datatype pyval = PStr string | PList "pyval list" | PDict "(string \<times> pyval) list"

text \<open>
  The argument \<open>meeting_data\<close> is a dictionary read with \<open>.get(key, default)\<close>; a field
  is \<open>None\<close> when its key is absent. Of the transcript dictionary only \<open>text\<close> is read.
\<close>

record transcript =
  tr_text :: "string option"

record meeting_data =
  md_title :: "string option"
  md_date :: "string option"
  md_participants :: "string list option"
  md_transcript :: "transcript option"

text \<open>
  The text-generation pipeline is outside the program: a call
  \<open>self.pipeline(prompt, max_new_tokens=n, temperature=t, do_sample=True, ...)\<close>
  followed by \<open>response[0]['generated_text']\<close> is a function of the prompt and the two
  parameters that yields the generated text, or \<open>None\<close> when the call or the access to
  its response raises. Sampling makes the answers of two calls differ; quantifying
  over the function covers that. The summarizer object holds the flag
  \<open>self.model == "demo_mode"\<close> and the pipeline (\<open>None\<close> until it is created).
\<close>

type_synonym pipeline = "string \<Rightarrow> int \<Rightarrow> real \<Rightarrow> string option"

record summarizer =
  model_is_demo :: bool
  pipeline :: "pipeline option"

subsection \<open>The fixed results of the demo mode\<close>

definition generate_demo_summary :: "string \<Rightarrow> int \<Rightarrow> string" where
  "generate_demo_summary transcript max_length = strip (
     nl @ ind @ ''The team meeting covered three main areas: marketing campaign progress, ''
     @ nl @ ind @ ''budget analysis, and technical status updates. Key highlights include:''
     @ nl @ ind
     @ nl @ ind @ [bullet] @ '' Marketing campaign has completed design phase and is moving to implementation''
     @ nl @ ind @ [bullet] @ '' Budget analysis shows 15% under budget, providing flexibility for additional features''
     @ nl @ ind @ [bullet] @ '' Technical development is on track with no major blockers''
     @ nl @ ind @ [bullet] @ '' Team agreed to allocate extra budget funds to user testing''
     @ nl @ ind @ [bullet] @ '' All systems are ready for the planned launch timeline''
     @ nl @ ind)"

definition extract_demo_decisions :: "string \<Rightarrow> string list" where
  "extract_demo_decisions transcript =
     [''Allocate extra budget funds to user testing'',
      ''Proceed with campaign launch by end of next week'']"

definition action_item :: "string \<Rightarrow> string \<Rightarrow> string \<Rightarrow> string \<Rightarrow> pyval" where
  "action_item task assignee due_date priority =
     PDict [(''task'', PStr task), (''assignee'', PStr assignee),
            (''due_date'', PStr due_date), (''priority'', PStr priority)]"

definition extract_demo_action_items :: "string \<Rightarrow> pyval list" where
  "extract_demo_action_items transcript =
     [action_item ''Finalize campaign launch preparations'' ''John'' ''End of next week'' ''High'',
      action_item ''Prepare budget reallocation proposal'' ''Jane'' ''Next meeting'' ''Medium'']"

definition extract_demo_next_steps :: "string \<Rightarrow> string list" where
  "extract_demo_next_steps transcript =
     [''Review budget reallocation proposal in next meeting'',
      ''Monitor campaign launch progress'',
      ''Schedule user testing sessions'']"

subsection \<open>The extractions that call the pipeline\<close>

definition summary_prompt :: "string \<Rightarrow> int \<Rightarrow> string" where
  "summary_prompt transcript max_length =
     nl @ ind @ ''Please analyze the following meeting transcript and provide a concise summary in ''
       @ str_int max_length @ '' words or less.''
     @ nl @ ind @ ''Focus on the main topics discussed, key points raised, and overall meeting outcomes.''
     @ nl @ ind
     @ nl @ ind @ ''Transcript:''
     @ nl @ ind @ take 2000 transcript @ ''  # Limit input length''
     @ nl @ ind
     @ nl @ ind @ ''Summary:''"

definition generate_llm_summary :: "pipeline \<Rightarrow> string \<Rightarrow> int \<Rightarrow> string" where
  "generate_llm_summary p transcript max_length =
     (case p (summary_prompt transcript max_length) max_length (7 / 10) of
        None \<Rightarrow> generate_demo_summary transcript max_length
      | Some generated_text \<Rightarrow> strip (last (split_str ''Summary:'' generated_text)))"

definition decisions_prompt :: "string \<Rightarrow> string" where
  "decisions_prompt transcript =
     nl @ ind @ ''Analyze this meeting transcript and extract the key decisions that were made.''
     @ nl @ ind @ ''Return only the decisions as a numbered list.''
     @ nl @ ind
     @ nl @ ind @ ''Transcript:''
     @ nl @ ind @ take 1500 transcript
     @ nl @ ind
     @ nl @ ind @ ''Key Decisions:''"

definition extract_llm_decisions :: "pipeline \<Rightarrow> string \<Rightarrow> string list" where
  "extract_llm_decisions p transcript =
     (case p (decisions_prompt transcript) 200 (3 / 10) of
        None \<Rightarrow> extract_demo_decisions transcript
      | Some generated_text \<Rightarrow>
          (let decisions_text = strip (last (split_str ''Key Decisions:'' generated_text));
               decisions = map strip
                 (filter (\<lambda>d. strip d \<noteq> [] \<and> \<not> isdigit (strip d)) (split_str nl decisions_text))
           in take 5 decisions))"

definition action_items_prompt :: "string \<Rightarrow> string" where
  "action_items_prompt transcript =
     nl @ ind @ ''Analyze this meeting transcript and extract action items with assignees and due dates.''
     @ nl @ ind @ ''Format as: '' @ dq @ ''Task - Assignee - Due Date - Priority'' @ dq
     @ nl @ ind
     @ nl @ ind @ ''Transcript:''
     @ nl @ ind @ take 1500 transcript
     @ nl @ ind
     @ nl @ ind @ ''Action Items:''"

definition parse_action_line :: "string \<Rightarrow> pyval list" where
  \<comment> \<open>one round of the loop over the lines: the items it appends (none or one)\<close>
  "parse_action_line line =
     (if CHR ''-'' \<in> set line \<and> strip line \<noteq> []
      then (let parts = map strip (split_str ''-'' line)
            in if length parts \<ge> 2
               then [action_item (parts ! 0)
                       (if length parts > 1 then parts ! 1 else ''Unassigned'')
                       (if length parts > 2 then parts ! 2 else ''TBD'')
                       (if length parts > 3 then parts ! 3 else ''Medium'')]
               else [])
      else [])"

definition extract_llm_action_items :: "pipeline \<Rightarrow> string \<Rightarrow> pyval list" where
  "extract_llm_action_items p transcript =
     (case p (action_items_prompt transcript) 300 (3 / 10) of
        None \<Rightarrow> extract_demo_action_items transcript
      | Some generated_text \<Rightarrow>
          (let items_text = strip (last (split_str ''Action Items:'' generated_text))
           in concat (map parse_action_line (take 5 (split_str nl items_text)))))"

definition next_steps_prompt :: "string \<Rightarrow> string" where
  "next_steps_prompt transcript =
     nl @ ind @ ''Based on this meeting transcript, what are the logical next steps and follow-up actions?''
     @ nl @ ind @ ''List them as bullet points.''
     @ nl @ ind
     @ nl @ ind @ ''Transcript:''
     @ nl @ ind @ take 1500 transcript
     @ nl @ ind
     @ nl @ ind @ ''Next Steps:''"

definition extract_llm_next_steps :: "pipeline \<Rightarrow> string \<Rightarrow> string list" where
  "extract_llm_next_steps p transcript =
     (case p (next_steps_prompt transcript) 200 (5 / 10) of
        None \<Rightarrow> extract_demo_next_steps transcript
      | Some generated_text \<Rightarrow>
          (let steps_text = strip (last (split_str ''Next Steps:'' generated_text));
               next_steps = map (\<lambda>s. lstrip_chars [bullet, CHR ''-'', CHR ''*''] (strip s))
                 (filter (\<lambda>s. strip s \<noteq> []) (split_str nl steps_text))
           in take 5 next_steps))"

subsection \<open>The minutes record\<close>

definition transcript_text :: "meeting_data \<Rightarrow> string" where
  \<comment> \<open>\<open>meeting_data.get('transcript', {}).get('text', '')\<close>\<close>
  "transcript_text md =
     (case md_transcript md of
        None \<Rightarrow> []
      | Some tr \<Rightarrow> (case tr_text tr of None \<Rightarrow> [] | Some t \<Rightarrow> t))"

definition meeting_info :: "meeting_data \<Rightarrow> string \<Rightarrow> pyval" where
  "meeting_info md transcript =
     PDict [(''title'', PStr (case md_title md of None \<Rightarrow> ''Meeting'' | Some t \<Rightarrow> t)),
            (''date'', PStr (case md_date md of None \<Rightarrow> [] | Some d \<Rightarrow> d)),
            (''participants'', PList (map PStr (case md_participants md of None \<Rightarrow> [] | Some ps \<Rightarrow> ps))),
            (''duration'', PStr (estimate_duration transcript))]"

definition generate_demo_minutes :: "meeting_data \<Rightarrow> int \<Rightarrow> pyval" where
  "generate_demo_minutes md max_length =
     (let transcript = transcript_text md
      in PDict [(''meeting_info'', meeting_info md transcript),
                (''summary'', PStr (generate_demo_summary transcript max_length)),
                (''key_decisions'', PList (map PStr (extract_demo_decisions transcript))),
                (''action_items'', PList (extract_demo_action_items transcript)),
                (''next_steps'', PList (map PStr (extract_demo_next_steps transcript))),
                (''full_transcript'', PStr transcript)])"

definition in_demo_mode :: "summarizer \<Rightarrow> bool" where
  \<comment> \<open>\<open>self.model == "demo_mode" or self.pipeline is None\<close>\<close>
  "in_demo_mode self = (model_is_demo self \<or> pipeline self = None)"

text \<open>
  \<open>generate_minutes\<close>. The body runs inside \<open>try\<close>, with the demo minutes as the
  handler's result; on a \<open>meeting_data\<close> of the shape above nothing outside the four
  extractions can raise, and each extraction handles its own failure, so the handler is
  never entered. Outside the demo mode the pipeline is present, which is what \<open>the\<close>
  reads. The two-second \<open>time.sleep\<close> of the demo path and the messages sent to
  the user interface change no value and are left out.
\<close>

definition generate_minutes :: "summarizer \<Rightarrow> meeting_data \<Rightarrow> int \<Rightarrow> pyval" where
  "generate_minutes self md max_length =
     (let transcript = transcript_text md
      in if in_demo_mode self then generate_demo_minutes md max_length
         else (let p = the (pipeline self)
               in PDict [(''meeting_info'', meeting_info md transcript),
                         (''summary'', PStr (generate_llm_summary p transcript max_length)),
                         (''key_decisions'', PList (map PStr (extract_llm_decisions p transcript))),
                         (''action_items'', PList (extract_llm_action_items p transcript)),
                         (''next_steps'', PList (map PStr (extract_llm_next_steps p transcript))),
                         (''full_transcript'', PStr transcript)]))"

section \<open>output_generator.py\<close>

subsection \<open>Encoding text as UTF-8\<close>

text \<open>
  \<open>str.encode('utf-8')\<close> on the alphabet of this model: one byte below U+0080, two bytes
  from U+0080 to U+00FF, and the three bytes E2 80 A2 for the bullet. Bytes are numbers
  below 256.
\<close>

type_synonym bytes = "nat list"

definition utf8_char :: "char \<Rightarrow> bytes" where
  "utf8_char c = (let n = (of_char c :: nat) in
     if c = bullet then [0xE2, 0x80, 0xA2]
     else if n < 0x80 then [n]
     else [0xC0 + n div 64, 0x80 + n mod 64])"

definition utf8_encode :: "string \<Rightarrow> bytes" where
  "utf8_encode s = concat (map utf8_char s)"

subsection \<open>json.dumps with indent=2 and ensure_ascii=False\<close>

text \<open>
  The encoder of Python's standard library, for the values of \<open>pyval\<close>. A text is put
  between double quotes, with \<open>\\\<close>, \<open>"\<close> and the control characters below U+0020
  escaped (\<open>\b \f \n \r \t\<close>, the others as \<open>\u00XX\<close> with lowercase hexadecimal digits);
  every other character stands for itself. A non-empty list or dictionary puts each item
  on a line of its own, indented by two spaces per nesting level, items separated by a
  comma, a key and its value by a colon and a space; the empty ones are \<open>[]\<close> and \<open>{}\<close>.
\<close>

definition bs :: char where
  \<comment> \<open>the backslash\<close>
  "bs = CHR 0x5C"

definition hex_digit :: "nat \<Rightarrow> char" where
  "hex_digit d = ''0123456789abcdef'' ! d"

definition escape_char :: "char \<Rightarrow> string" where
  "escape_char c =
     (if c = bs then [bs, bs]
      else if c = CHR 0x22 then [bs, CHR 0x22]
      else if c = CHR 0x08 then [bs, CHR ''b'']
      else if c = CHR 0x0C then [bs, CHR ''f'']
      else if c = CHR 0x0A then [bs, CHR ''n'']
      else if c = CHR 0x0D then [bs, CHR ''r'']
      else if c = CHR 0x09 then [bs, CHR ''t'']
      else if (of_char c :: nat) < 0x20
      then [bs, CHR ''u'', CHR ''0'', CHR ''0'',
            hex_digit ((of_char c :: nat) div 16), hex_digit ((of_char c :: nat) mod 16)]
      else [c])"

definition encode_basestring :: "string \<Rightarrow> string" where
  "encode_basestring s = dq @ concat (map escape_char s) @ dq"

definition newline_indent :: "nat \<Rightarrow> string" where
  "newline_indent level = nl @ replicate (2 * level) CHR '' ''"

fun join :: "string \<Rightarrow> string list \<Rightarrow> string" where
  "join sep [] = []"
| "join sep [x] = x"
| "join sep (x # y # ys) = x @ sep @ join sep (y # ys)"

fun iterencode :: "nat \<Rightarrow> pyval \<Rightarrow> string" where
  "iterencode level (PStr s) = encode_basestring s"
| "iterencode level (PList xs) =
     (if xs = [] then ''[]''
      else ''['' @ newline_indent (level + 1)
           @ join ('','' @ newline_indent (level + 1)) (map (iterencode (level + 1)) xs)
           @ newline_indent level @ '']'')"
| "iterencode level (PDict kvs) =
     (if kvs = [] then ''{}''
      else ''{'' @ newline_indent (level + 1)
           @ join ('','' @ newline_indent (level + 1))
               (map (\<lambda>(k, v). encode_basestring k @ '': '' @ iterencode (level + 1) v) kvs)
           @ newline_indent level @ ''}'')"

definition json_dumps :: "pyval \<Rightarrow> string" where
  "json_dumps obj = iterencode 0 obj"

subsection \<open>The renderers and the dispatch\<close>

datatype error = Raised string

definition generate_json :: "pyval \<Rightarrow> bytes" where
  \<comment> \<open>on the values of \<open>pyval\<close> neither \<open>json.dumps\<close> nor the encoding raises\<close>
  "generate_json minutes = utf8_encode (json_dumps minutes)"

text \<open>
  The HTML renderer stamps its page with the time of the call, and both the HTML and the
  text renderer format whatever values they find with Python's \<open>str\<close> and raise on a
  record of the wrong shape. Their payloads are no part of what is proved here: they are
  arbitrary functions from the record to a payload or an exception. \<open>generate_outputs\<close>
  visits the requested formats in order; an exception of a renderer leaves the loop and
  is raised again, so no dictionary is returned.
\<close>

type_synonym renderer = "pyval \<Rightarrow> error + bytes"

fun outputs_loop ::
  "renderer \<Rightarrow> renderer \<Rightarrow> pyval \<Rightarrow> string list \<Rightarrow> (string \<rightharpoonup> bytes) \<Rightarrow> error + (string \<rightharpoonup> bytes)"
where
  "outputs_loop generate_html generate_pdf minutes [] outputs = Inr outputs"
| "outputs_loop generate_html generate_pdf minutes (format_name # rest) outputs =
     (if format_name = ''JSON''
      then outputs_loop generate_html generate_pdf minutes rest
             (outputs(''JSON'' \<mapsto> generate_json minutes))
      else if format_name = ''HTML''
      then (case generate_html minutes of
              Inl e \<Rightarrow> Inl e
            | Inr payload \<Rightarrow>
                outputs_loop generate_html generate_pdf minutes rest (outputs(''HTML'' \<mapsto> payload)))
      else if format_name = ''PDF''
      then (case generate_pdf minutes of
              Inl e \<Rightarrow> Inl e
            | Inr payload \<Rightarrow>
                outputs_loop generate_html generate_pdf minutes rest (outputs(''PDF'' \<mapsto> payload)))
      else outputs_loop generate_html generate_pdf minutes rest outputs)"

definition generate_outputs ::
  "renderer \<Rightarrow> renderer \<Rightarrow> pyval \<Rightarrow> string list \<Rightarrow> error + (string \<rightharpoonup> bytes)"
where
  "generate_outputs generate_html generate_pdf minutes formats =
     outputs_loop generate_html generate_pdf minutes formats Map.empty"

subsection \<open>Reading the payload back: bytes.decode('utf-8') and json.loads\<close>

text \<open>
  Decoding UTF-8 into the alphabet of this model. \<open>None\<close> stands for a byte sequence that
  Python rejects and for one that decodes to a character outside the alphabet.
\<close>

fun utf8_decode :: "bytes \<Rightarrow> string option" where
  "utf8_decode [] = Some []"
| "utf8_decode (b # rest) =
     (if b < 0x80 then map_option (\<lambda>s. char_of b # s) (utf8_decode rest)
      else if b = 0xC2 \<or> b = 0xC3
      then (case rest of
              [] \<Rightarrow> None
            | b2 # rest2 \<Rightarrow>
                if 0x80 \<le> b2 \<and> b2 < 0xC0 \<and> (b - 0xC0) * 64 + (b2 - 0x80) \<noteq> 0x95
                then map_option (\<lambda>s. char_of ((b - 0xC0) * 64 + (b2 - 0x80)) # s) (utf8_decode rest2)
                else None)
      else if b = 0xE2
      then (case rest of
              b2 # b3 # rest3 \<Rightarrow>
                if b2 = 0x80 \<and> b3 = 0xA2 then map_option (\<lambda>s. bullet # s) (utf8_decode rest3)
                else None
            | _ \<Rightarrow> None)
      else None)"

text \<open>
  The decoder of Python's standard library, for documents whose values are texts, arrays
  and objects. \<open>None\<close> stands for a document that \<open>json.loads\<close> rejects and for one with
  a value or character outside the model (numbers, \<open>true\<close>, \<open>false\<close>, \<open>null\<close>, characters
  outside the alphabet). Whitespace (space, tab, line feed, carriage return) is skipped
  where the decoder skips it. The \<open>nat\<close> argument of the three parsing functions bounds
  the depth of their calls; \<open>json_loads\<close> starts them with more than the length of the
  document, which no document exhausts.
\<close>

definition is_json_ws :: "char \<Rightarrow> bool" where
  "is_json_ws c = (c = CHR '' '' \<or> c = CHR 0x09 \<or> c = CHR 0x0A \<or> c = CHR 0x0D)"

definition skip_ws :: "string \<Rightarrow> string" where
  "skip_ws s = dropWhile is_json_ws s"

definition hex_value :: "char \<Rightarrow> nat option" where
  "hex_value c = (let n = (of_char c :: nat) in
     if 48 \<le> n \<and> n \<le> 57 then Some (n - 48)
     else if 97 \<le> n \<and> n \<le> 102 then Some (n - 87)
     else if 65 \<le> n \<and> n \<le> 70 then Some (n - 55)
     else None)"

definition char_of_code :: "nat \<Rightarrow> char option" where
  \<comment> \<open>\<open>chr(n)\<close>, where the alphabet has that character\<close>
  "char_of_code n =
     (if n = 0x2022 then Some bullet
      else if n < 256 \<and> n \<noteq> 0x95 then Some (char_of n)
      else None)"

definition backslash :: "char \<Rightarrow> char option" where
  "backslash e =
     (if e = CHR 0x22 then Some (CHR 0x22)
      else if e = bs then Some bs
      else if e = CHR ''/'' then Some (CHR ''/'')
      else if e = CHR ''b'' then Some (CHR 0x08)
      else if e = CHR ''f'' then Some (CHR 0x0C)
      else if e = CHR ''n'' then Some (CHR 0x0A)
      else if e = CHR ''r'' then Some (CHR 0x0D)
      else if e = CHR ''t'' then Some (CHR 0x09)
      else None)"

definition decode_u4 :: "char \<Rightarrow> char \<Rightarrow> char \<Rightarrow> char \<Rightarrow> char option" where
  "decode_u4 a b c d =
     (case (hex_value a, hex_value b, hex_value c, hex_value d) of
        (Some x3, Some x2, Some x1, Some x0) \<Rightarrow> char_of_code (((x3 * 16 + x2) * 16 + x1) * 16 + x0)
      | _ \<Rightarrow> None)"

definition cons_result :: "char \<Rightarrow> (string \<times> string) option \<Rightarrow> (string \<times> string) option" where
  "cons_result ch r = map_option (\<lambda>(s, rest). (ch # s, rest)) r"

text \<open>
  \<open>scanstring s\<close> reads a text whose opening quote has been consumed: the text and what
  follows its closing quote.
\<close>

fun scanstring :: "string \<Rightarrow> (string \<times> string) option" where
  "scanstring [] = None"
| "scanstring (c # cs) =
     (if c = CHR 0x22 then Some ([], cs)
      else if c = bs
      then (case cs of
              [] \<Rightarrow> None
            | e # r \<Rightarrow>
                if e = CHR ''u''
                then (case r of
                        h3 # h2 # h1 # h0 # r' \<Rightarrow>
                          (case decode_u4 h3 h2 h1 h0 of
                             None \<Rightarrow> None
                           | Some ch \<Rightarrow> cons_result ch (scanstring r'))
                      | _ \<Rightarrow> None)
                else (case backslash e of
                        None \<Rightarrow> None
                      | Some ch \<Rightarrow> cons_result ch (scanstring r)))
      else if (of_char c :: nat) < 0x20 then None
      else cons_result c (scanstring cs))"

text \<open>
  \<open>dict(pairs)\<close>: a later value for a key replaces the earlier one, at the earlier
  position.
\<close>

definition dict_set :: "(string \<times> pyval) list \<Rightarrow> string \<Rightarrow> pyval \<Rightarrow> (string \<times> pyval) list" where
  "dict_set d k v =
     (if k \<in> set (map fst d) then map (\<lambda>(k', v'). if k' = k then (k', v) else (k', v')) d
      else d @ [(k, v)])"

definition dict_of_pairs :: "(string \<times> pyval) list \<Rightarrow> (string \<times> pyval) list" where
  "dict_of_pairs pairs = foldl (\<lambda>d (k, v). dict_set d k v) [] pairs"

text \<open>
  \<open>parse_value\<close> reads one value; \<open>parse_array\<close> reads the items of an array up to its
  closing bracket, from the first item on; \<open>parse_object\<close> reads the pairs of an object
  up to its closing brace, from just after the opening quote of the first key on.
\<close>

fun parse_value :: "nat \<Rightarrow> string \<Rightarrow> (pyval \<times> string) option"
  and parse_array :: "nat \<Rightarrow> string \<Rightarrow> (pyval list \<times> string) option"
  and parse_object :: "nat \<Rightarrow> string \<Rightarrow> ((string \<times> pyval) list \<times> string) option"
where
  "parse_value 0 s = None"
| "parse_value (Suc n) s =
     (case s of
        [] \<Rightarrow> None
      | c # r \<Rightarrow>
          if c = CHR 0x22
          then (case scanstring r of
                  None \<Rightarrow> None
                | Some (str, r') \<Rightarrow> Some (PStr str, r'))
          else if c = CHR ''[''
          then (case skip_ws r of
                  [] \<Rightarrow> None
                | c1 # r1 \<Rightarrow>
                    if c1 = CHR '']'' then Some (PList [], r1)
                    else (case parse_array n (c1 # r1) of
                            None \<Rightarrow> None
                          | Some (values, r2) \<Rightarrow> Some (PList values, r2)))
          else if c = CHR ''{''
          then (case skip_ws r of
                  [] \<Rightarrow> None
                | c1 # r1 \<Rightarrow>
                    if c1 = CHR ''}'' then Some (PDict [], r1)
                    else if c1 = CHR 0x22
                    then (case parse_object n r1 of
                            None \<Rightarrow> None
                          | Some (pairs, r2) \<Rightarrow> Some (PDict (dict_of_pairs pairs), r2))
                    else None)
          else None)"
| "parse_array 0 s = None"
| "parse_array (Suc n) s =
     (case parse_value n s of
        None \<Rightarrow> None
      | Some (v, r) \<Rightarrow>
          (case skip_ws r of
             [] \<Rightarrow> None
           | c # r1 \<Rightarrow>
               if c = CHR '']'' then Some ([v], r1)
               else if c = CHR '',''
               then (case parse_array n (skip_ws r1) of
                       None \<Rightarrow> None
                     | Some (values, r2) \<Rightarrow> Some (v # values, r2))
               else None))"
| "parse_object 0 s = None"
| "parse_object (Suc n) s =
     (case scanstring s of
        None \<Rightarrow> None
      | Some (key, r) \<Rightarrow>
          (case skip_ws r of
             [] \<Rightarrow> None
           | c # r1 \<Rightarrow>
               if c \<noteq> CHR '':'' then None
               else (case parse_value n (skip_ws r1) of
                       None \<Rightarrow> None
                     | Some (v, r2) \<Rightarrow>
                         (case skip_ws r2 of
                            [] \<Rightarrow> None
                          | c2 # r3 \<Rightarrow>
                              if c2 = CHR ''}'' then Some ([(key, v)], r3)
                              else if c2 = CHR '',''
                              then (case skip_ws r3 of
                                      [] \<Rightarrow> None
                                    | c3 # r4 \<Rightarrow>
                                        if c3 \<noteq> CHR 0x22 then None
                                        else (case parse_object n r4 of
                                                None \<Rightarrow> None
                                              | Some (pairs, r5) \<Rightarrow> Some ((key, v) # pairs, r5)))
                              else None))))"

definition json_loads :: "string \<Rightarrow> pyval option" where
  "json_loads s =
     (case parse_value (Suc (length s)) (skip_ws s) of
        None \<Rightarrow> None
      | Some (obj, r) \<Rightarrow> if skip_ws r = [] then Some obj else None)"

definition decode_payload :: "bytes \<Rightarrow> pyval option" where
  \<comment> \<open>\<open>json.loads(payload.decode('utf-8'))\<close>\<close>
  "decode_payload payload =
     (case utf8_decode payload of None \<Rightarrow> None | Some s \<Rightarrow> json_loads s)"

text \<open>
  A \<open>pyval\<close> is a Python value when the keys of each of its dictionaries are distinct.
\<close>

fun python_value :: "pyval \<Rightarrow> bool" where
  "python_value (PStr s) = True"
| "python_value (PList xs) = list_all python_value xs"
| "python_value (PDict kvs) = (distinct (map fst kvs) \<and> list_all (\<lambda>(k, v). python_value v) kvs)"

definition dict_get :: "pyval \<Rightarrow> string \<Rightarrow> pyval option" where
  \<comment> \<open>\<open>d[key]\<close> on a dictionary, \<open>None\<close> where Python raises\<close>
  "dict_get d key = (case d of PDict kvs \<Rightarrow> map_of kvs key | _ \<Rightarrow> None)"

definition test_minutes :: pyval where
  \<comment> \<open>a record with the title \<open>Test\<close>, one decision and one action item\<close>
  "test_minutes =
     PDict [(''meeting_info'',
               PDict [(''title'', PStr ''Test''), (''date'', PStr ''2024-01-15''),
                      (''participants'', PList [PStr ''Alice'', PStr ''Bob'']),
                      (''duration'', PStr ''30 minutes'')]),
            (''summary'', PStr ''Test summary''),
            (''key_decisions'', PList [PStr ''Decision 1'']),
            (''action_items'',
               PList [PDict [(''task'', PStr ''Task 1''), (''assignee'', PStr ''Alice''),
                             (''due_date'', PStr ''Next week'')]]),
            (''next_steps'', PList [PStr ''Step 1'']),
            (''full_transcript'', PStr ''Test transcript'')]"

section \<open>Properties of the evaluator\<close>

subsection \<open>Auxiliary facts\<close>

lemma card_inter_le_length: "card (set xs \<inter> set ys) \<le> length xs"
proof -
  have "card (set xs \<inter> set ys) \<le> card (set xs)"
    by (rule card_mono) auto
  also have "\<dots> \<le> length xs" by (rule card_length)
  finally show ?thesis .
qed

lemma card_inter_le_card_right: "card (set xs \<inter> set ys) \<le> card (set ys)"
  by (rule card_mono) auto

lemma card_inter_le_card_left: "card (set xs \<inter> set ys) \<le> card (set xs)"
  by (rule card_mono) auto

lemma nat_ratio_le_one: "k \<le> n \<Longrightarrow> real k / real n \<le> 1"
  by (cases "n = 0") simp_all

lemma clamp01_bounds: "0 \<le> clamp01 x" "clamp01 x \<le> 1"
  by (simp_all add: clamp01_def)

lemma get_bigrams_zip: "get_bigrams text = consecutive_pairs (split_ws text)"
  unfolding get_bigrams_def consecutive_pairs_def Let_def
  by (rule nth_equalityI) (auto simp: nth_tl)

lemma length_get_bigrams: "length (get_bigrams text) = length (split_ws text) - 1"
  by (simp add: get_bigrams_def Let_def)

lemma length_lower: "length (lower s) = length s"
  by (simp add: lower_def)

lemma count_equal_zip_prefix:
  "length (filter (\<lambda>(a, b). a = b) (zip xs (xs @ t))) = length xs"
  by (induction xs) auto

lemma wer_bounds: "0 \<le> calculate_wer r h" "calculate_wer r h \<le> 1"
  by (simp_all add: calculate_wer_def Let_def clamp01_bounds)

lemma cer_bounds: "0 \<le> calculate_cer r h" "calculate_cer r h \<le> 1"
  by (simp_all add: calculate_cer_def Let_def clamp01_bounds)

lemma bleu_bounds: "0 \<le> calculate_bleu r h" "calculate_bleu r h \<le> 1"
  using nat_ratio_le_one[OF card_inter_le_card_right[of "split_ws (lower r)" "split_ws (lower h)"]]
  by (simp_all add: calculate_bleu_def Let_def)

lemma rouge_1_bounds: "0 \<le> calculate_rouge_1 r h" "calculate_rouge_1 r h \<le> 1"
  using nat_ratio_le_one[OF card_inter_le_card_left[of "split_ws (lower r)" "split_ws (lower h)"]]
  by (simp_all add: calculate_rouge_1_def Let_def)

lemma rouge_2_bounds: "0 \<le> calculate_rouge_2 r h" "calculate_rouge_2 r h \<le> 1"
  using nat_ratio_le_one[OF card_inter_le_length[of "get_bigrams (lower r)" "get_bigrams (lower h)"]]
  by (simp_all add: calculate_rouge_2_def Let_def)

subsection \<open>Word error rate\<close>

text \<open>
  Claim C1, as stated: the word error rate is
  \<open>clamp(1 - |common distinct words| / |distinct reference words|, 0, 1)\<close>.
  The code divides by \<open>len(ref_words)\<close>, the number of reference words with repeats
  counted, so the stated formula fails on a reference that repeats a word:
  for reference \<open>a a\<close> and hypothesis \<open>a\<close> the code returns 0.5, the formula 0.
\<close>

theorem C1_wer_distinct_denominator_counterexample:
  "calculate_wer ''a a'' ''a'' = 1 / 2 \<and> spec_wer ''a a'' ''a'' = 0"
  by (simp add: calculate_wer_def spec_wer_def clamp01_def split_ws_def
      lower_def lower_char_def is_space_def)

text \<open>
  Claim C1, amended: the word error rate is
  \<open>clamp(1 - |common distinct lowercase words| / (number of lowercase words of the
  reference, repeats counted), 0, 1)\<close>; with a reference of zero words it is 1 if the
  hypothesis has at least one word and 0 otherwise. Where the reference's lowercase words
  are pairwise distinct, this is the formula of the specification.
\<close>

theorem C1_wer_formula:
  "calculate_wer r h =
     (if split_ws (lower r) = [] then (if split_ws (lower h) = [] then 0 else 1)
      else clamp01 (1 - real (card (set (split_ws (lower r)) \<inter> set (split_ws (lower h))))
                         / real (length (split_ws (lower r)))))
   \<and> (distinct (split_ws (lower r)) \<longrightarrow> calculate_wer r h = spec_wer r h)"
  by (auto simp: calculate_wer_def spec_wer_def Let_def distinct_card)

theorem C1_wer_formula_witness:
  "distinct (split_ws (lower ''the cat sat'')) \<and>
   calculate_wer ''the cat sat'' ''the cat'' = spec_wer ''the cat sat'' ''the cat'' \<and>
   calculate_wer ''the cat sat'' ''the cat'' = 1 / 3"
proof -
  have d: "distinct (split_ws (lower ''the cat sat''))" by code_simp
  have v: "spec_wer ''the cat sat'' ''the cat'' = 1 / 3" by code_simp
  show ?thesis using d v C1_wer_formula[of "''the cat sat''" "''the cat''"] by simp
qed

subsection \<open>ROUGE-2\<close>

text \<open>
  Claim C2, as stated: ROUGE-2 is
  \<open>|common distinct word pairs| / |distinct reference word pairs|\<close>.
  The code divides by \<open>len(ref_bigrams)\<close>, the length of the list of reference pairs,
  so the stated formula fails on a reference that repeats a pair: for reference
  \<open>a b a b\<close> and hypothesis \<open>a b\<close> the code returns 1/3, the formula 1/2.
\<close>

theorem C2_rouge_2_distinct_denominator_counterexample:
  "calculate_rouge_2 ''a b a b'' ''a b'' = 1 / 3 \<and> spec_rouge_2 ''a b a b'' ''a b'' = 1 / 2"
  by code_simp

text \<open>
  Claim C2, amended: ROUGE-2 is the number of distinct lowercase consecutive word pairs
  common to both texts, divided by the number of consecutive word pairs of the reference
  with repeats counted (its number of words minus one); it is 0 when the reference has
  fewer than two words.
\<close>

theorem C2_rouge_2_formula:
  "calculate_rouge_2 r h =
     (if length (split_ws (lower r)) < 2 then 0
      else real (card (set (consecutive_pairs (split_ws (lower r)))
                        \<inter> set (consecutive_pairs (split_ws (lower h)))))
           / real (length (split_ws (lower r)) - 1))"
  by (auto simp: calculate_rouge_2_def Let_def get_bigrams_zip[symmetric] length_get_bigrams)

subsection \<open>Range of the scores\<close>

text \<open>
  Claim C8: for every reference and hypothesis, each of the four transcription scores
  and each of the four summarization scores lies between 0 and 1.
\<close>

theorem C8_scores_in_unit_interval:
  "0 \<le> word_error_rate (evaluate_transcription r h) \<and> word_error_rate (evaluate_transcription r h) \<le> 1 \<and>
   0 \<le> character_error_rate (evaluate_transcription r h) \<and> character_error_rate (evaluate_transcription r h) \<le> 1 \<and>
   0 \<le> bleu_score (evaluate_transcription r h) \<and> bleu_score (evaluate_transcription r h) \<le> 1 \<and>
   0 \<le> accuracy (evaluate_transcription r h) \<and> accuracy (evaluate_transcription r h) \<le> 1 \<and>
   0 \<le> rouge_1 (evaluate_summarization r h) \<and> rouge_1 (evaluate_summarization r h) \<le> 1 \<and>
   0 \<le> rouge_2 (evaluate_summarization r h) \<and> rouge_2 (evaluate_summarization r h) \<le> 1 \<and>
   0 \<le> rouge_l (evaluate_summarization r h) \<and> rouge_l (evaluate_summarization r h) \<le> 1 \<and>
   0 \<le> semantic_similarity (evaluate_summarization r h) \<and> semantic_similarity (evaluate_summarization r h) \<le> 1"
  by (simp add: evaluate_transcription_def evaluate_summarization_def
      calculate_rouge_l_def calculate_semantic_similarity_def
      wer_bounds cer_bounds bleu_bounds rouge_1_bounds rouge_2_bounds)

subsection \<open>Character error rate\<close>

text \<open>
  Claim C10: for a non-empty reference \<open>r\<close> and a hypothesis \<open>h\<close> whose lowercasing
  begins with the lowercasing of \<open>r\<close>, the character error rate is 0: the positions
  compared are those of the shorter text, so what the hypothesis has beyond the
  reference's length does not count.
\<close>

theorem C10_cer_prefix_zero:
  assumes "r \<noteq> []" and "prefix (lower r) (lower h)"
  shows "calculate_cer r h = 0"
proof -
  from assms(2) obtain t where t: "lower h = lower r @ t"
    by (auto simp: prefix_def)
  have "length (filter (\<lambda>(a, b). a = b) (zip (lower r) (lower h))) = length r"
    by (simp add: t count_equal_zip_prefix length_lower)
  with assms(1) show ?thesis
    by (simp add: calculate_cer_def Let_def clamp01_def)
qed

theorem C10_cer_prefix_zero_witness:
  "''Abc'' \<noteq> [] \<and> prefix (lower ''Abc'') (lower ''aBcdef'') \<and> calculate_cer ''Abc'' ''aBcdef'' = 0"
proof -
  have p: "prefix (lower ''Abc'') (lower ''aBcdef'')"
    by code_simp
  show ?thesis using p C10_cer_prefix_zero[of "''Abc''" "''aBcdef''"] by simp
qed

section \<open>Properties of the duration estimate\<close>

lemma str_nat_3: "str_nat 3 = ''3''"
  by code_simp

lemma str_nat_1: "str_nat (Suc 0) = ''1''"
  by code_simp

lemma digit_val: "d < 10 \<Longrightarrow> (of_char (char_of (48 + d) :: char) :: nat) - 48 = d"
  by (simp add: of_char_of)

lemma decimal_value_snoc: "decimal_value (ds @ [d]) = 10 * decimal_value ds + (of_char d - 48)"
  by (simp add: decimal_value_def)

lemma decimal_value_str_nat: "decimal_value (str_nat n) = n"
proof (induction n rule: str_nat.induct)
  case (1 n)
  show ?case
  proof (cases "n < 10")
    case True
    then show ?thesis by (subst str_nat.simps) (simp add: decimal_value_def)
  next
    case False
    have "decimal_value (str_nat n) = decimal_value (str_nat (n div 10) @ [char_of (48 + n mod 10)])"
      using False by (subst str_nat.simps) simp
    also have "\<dots> = 10 * decimal_value (str_nat (n div 10)) + (of_char (char_of (48 + n mod 10) :: char) - 48)"
      by (rule decimal_value_snoc)
    also have "\<dots> = 10 * (n div 10) + n mod 10"
      using 1[OF False] digit_val[of "n mod 10"] by simp
    finally show ?thesis by simp
  qed
qed

text \<open>
  Claim C5: for every transcript the duration estimate is the text \<open><N> minutes\<close>, where
  \<open>N = max(1, word count div 150)\<close> is written in decimal; a transcript of exactly 450
  words gives \<open>3 minutes\<close> and a transcript of one word gives \<open>1 minutes\<close>.
\<close>

theorem C5_estimate_duration:
  "estimate_duration t = str_nat (max 1 (length (split_ws t) div 150)) @ '' minutes''
   \<and> decimal_value (str_nat (max 1 (length (split_ws t) div 150))) = max 1 (length (split_ws t) div 150)
   \<and> (length (split_ws t) = 450 \<longrightarrow> estimate_duration t = ''3 minutes'')
   \<and> (length (split_ws t) = 1 \<longrightarrow> estimate_duration t = ''1 minutes'')"
  by (simp add: estimate_duration_def Let_def decimal_value_str_nat str_nat_3 str_nat_1)

theorem C5_estimate_duration_witness:
  "length (split_ws (concat (replicate 450 ''w ''))) = 450
   \<and> estimate_duration (concat (replicate 450 ''w '')) = ''3 minutes''
   \<and> length (split_ws ''hello'') = 1
   \<and> estimate_duration ''hello'' = ''1 minutes''"
proof -
  have a: "length (split_ws (concat (replicate 450 ''w ''))) = 450" by code_simp
  have b: "length (split_ws ''hello'') = 1" by code_simp
  show ?thesis
    using a b C5_estimate_duration[of "concat (replicate 450 ''w '')"]
      C5_estimate_duration[of "''hello''"] by blast
qed

section \<open>Properties of the file validation\<close>

lemma rfind_None: "rfind c s = None \<longleftrightarrow> c \<notin> set s"
  by (induction s) (auto split: option.splits)

lemma rfind_last: "c \<notin> set b \<Longrightarrow> rfind c (a @ c # b) = Some (length a)"
proof (induction a)
  case Nil
  then show ?case using rfind_None[of c b] by simp
next
  case (Cons x a)
  then show ?case by simp
qed

lemma lower_char_code:
  "(of_char (lower_char c) :: nat) =
     (if (65 \<le> (of_char c :: nat) \<and> (of_char c :: nat) \<le> 90)
         \<or> (192 \<le> (of_char c :: nat) \<and> (of_char c :: nat) \<le> 222 \<and> (of_char c :: nat) \<noteq> 215)
      then of_char c + 32 else of_char c)"
  by (simp add: lower_char_def Let_def of_char_of)

lemma lower_char_dot: "lower_char c = CHR ''.'' \<longleftrightarrow> c = CHR ''.''"
proof -
  have "lower_char c = CHR ''.'' \<longleftrightarrow> (of_char (lower_char c) :: nat) = of_char CHR ''.''"
    by (simp only: of_char_eq_iff)
  also have "\<dots> \<longleftrightarrow> (of_char c :: nat) = 46"
    by (simp only: lower_char_code) (simp split: if_splits)
  also have "\<dots> \<longleftrightarrow> (of_char c :: nat) = of_char CHR ''.''"
    by simp
  also have "\<dots> \<longleftrightarrow> c = CHR ''.''"
    by (simp only: of_char_eq_iff)
  finally show ?thesis .
qed

lemma lower_append: "lower (a @ b) = lower a @ lower b"
  by (simp add: lower_def)

lemma lower_no_dot: "CHR ''.'' \<notin> set (lower s) \<longleftrightarrow> CHR ''.'' \<notin> set s"
proof -
  have "CHR ''.'' \<in> set (lower s) \<longleftrightarrow> (\<exists>x\<in>set s. lower_char x = CHR ''.'')"
    unfolding lower_def set_map image_iff by (rule bex_cong) auto
  also have "\<dots> \<longleftrightarrow> CHR ''.'' \<in> set s"
    by (simp add: lower_char_dot)
  finally show ?thesis by simp
qed

lemma lower_eq_dot_Cons:
  assumes "lower s = CHR ''.'' # rest"
  shows "\<exists>s'. s = CHR ''.'' # s' \<and> lower s' = rest"
proof (cases s)
  case Nil
  with assms show ?thesis by (simp add: lower_def)
next
  case (Cons x xs)
  with assms have "lower_char x = CHR ''.''" and "lower xs = rest"
    by (simp_all add: lower_def)
  with Cons show ?thesis by (simp add: lower_char_dot)
qed

lemma supported_shape:
  assumes "e \<in> set supported_formats"
  shows "\<exists>rest. e = CHR ''.'' # rest \<and> CHR ''.'' \<notin> set rest \<and> length rest = 3"
  using assms by (auto simp: supported_formats_def)

lemma path_suffix_split:
  assumes "path_suffix p \<noteq> []"
  shows "\<exists>stem. stem \<noteq> [] \<and> path_name p = stem @ path_suffix p"
proof -
  from assms obtain i where i: "rfind CHR ''.'' (path_name p) = Some i"
    and b: "0 < i" "i < length (path_name p) - 1"
    and sfx: "path_suffix p = drop i (path_name p)"
    by (auto simp: path_suffix_def Let_def split: option.splits if_splits)
  have "path_name p = take i (path_name p) @ path_suffix p"
    by (simp add: sfx)
  moreover have "take i (path_name p) \<noteq> []"
    using b by auto
  ultimately show ?thesis by blast
qed

lemma path_suffix_of_name:
  assumes "path_name p = stem @ CHR ''.'' # rest" and "stem \<noteq> []"
    and "CHR ''.'' \<notin> set rest" and "rest \<noteq> []"
  shows "path_suffix p = CHR ''.'' # rest"
proof -
  have "rfind CHR ''.'' (path_name p) = Some (length stem)"
    using assms(1,3) by (simp add: rfind_last)
  moreover have "0 < length stem" using assms(2) by simp
  moreover have "length stem < length (path_name p) - 1"
    using assms(1,4) by (cases rest) simp_all
  ultimately show ?thesis
    using assms(1) by (simp add: path_suffix_def Let_def)
qed

text \<open>
  Claim C9: for every file path, \<open>validate_file\<close> returns true exactly when the path's
  extension (its \<open>suffix\<close>), lowercased, is one of \<open>.mp3 .wav .mp4 .avi .mov .mkv\<close>,
  and false otherwise. In terms of the file name alone: exactly when the lowercased
  name is a non-empty stem followed by one of the six extensions.
\<close>

theorem C9_validate_file_iff:
  "(validate_file p \<longleftrightarrow>
      lower (path_suffix p) \<in> {''.mp3'', ''.wav'', ''.mp4'', ''.avi'', ''.mov'', ''.mkv''})
   \<and> (validate_file p \<longleftrightarrow>
      (\<exists>stem e. stem \<noteq> [] \<and> e \<in> {''.mp3'', ''.wav'', ''.mp4'', ''.avi'', ''.mov'', ''.mkv''}
         \<and> lower (path_name p) = stem @ e))"
proof -
  have set_eq: "set supported_formats = {''.mp3'', ''.wav'', ''.mp4'', ''.avi'', ''.mov'', ''.mkv''}"
    by (simp add: supported_formats_def)
  have first: "validate_file p \<longleftrightarrow> lower (path_suffix p) \<in> set supported_formats"
    by (simp add: validate_file_def Let_def)
  have second: "validate_file p \<longleftrightarrow>
      (\<exists>stem e. stem \<noteq> [] \<and> e \<in> set supported_formats \<and> lower (path_name p) = stem @ e)"
  proof
    assume "validate_file p"
    then have m: "lower (path_suffix p) \<in> set supported_formats" by (simp add: first)
    then have "path_suffix p \<noteq> []"
      by (auto simp: supported_formats_def lower_def)
    then obtain stem where st: "stem \<noteq> []" "path_name p = stem @ path_suffix p"
      using path_suffix_split by blast
    have "lower (path_name p) = lower stem @ lower (path_suffix p)"
      by (subst st(2)) (rule lower_append)
    moreover have "lower stem \<noteq> []" using st(1) by (simp add: lower_def)
    ultimately show "\<exists>stem e. stem \<noteq> [] \<and> e \<in> set supported_formats \<and> lower (path_name p) = stem @ e"
      using m by blast
  next
    assume "\<exists>stem e. stem \<noteq> [] \<and> e \<in> set supported_formats \<and> lower (path_name p) = stem @ e"
    then obtain stem e where st: "stem \<noteq> []" and e: "e \<in> set supported_formats"
      and eq: "lower (path_name p) = stem @ e" by blast
    from supported_shape[OF e] obtain rest where
      r: "e = CHR ''.'' # rest" "CHR ''.'' \<notin> set rest" "length rest = 3" by blast
    let ?n = "path_name p"
    let ?k = "length stem"
    have len: "length ?n = ?k + length e"
      using arg_cong[OF eq, of length] by (simp add: length_lower)
    have split: "?n = take ?k ?n @ drop ?k ?n" by simp
    have "lower (take ?k ?n) @ lower (drop ?k ?n) = stem @ e"
      using eq lower_append[of "take ?k ?n" "drop ?k ?n"] by simp
    moreover have "length (lower (take ?k ?n)) = length stem"
      using len by (simp add: length_lower)
    ultimately have low: "lower (take ?k ?n) = stem" "lower (drop ?k ?n) = e"
      by simp_all
    from lower_eq_dot_Cons[OF low(2)[unfolded r(1)]] obtain s' where
      s': "drop ?k ?n = CHR ''.'' # s'" "lower s' = rest" by blast
    have nodot: "CHR ''.'' \<notin> set s'"
      using r(2) s'(2) lower_no_dot[of s'] by simp
    have ne: "s' \<noteq> []" using r(3) s'(2) by (auto simp: lower_def)
    have tk: "take ?k ?n \<noteq> []" using st low(1) by (auto simp: lower_def)
    have "?n = take ?k ?n @ CHR ''.'' # s'"
      using split s'(1) by simp
    from path_suffix_of_name[OF this tk nodot ne]
    have "lower (path_suffix p) = e"
      using s'(2) r(1) by (simp add: lower_def lower_char_dot)
    with e show "validate_file p" by (simp add: first)
  qed
  show ?thesis using first second by (simp only: set_eq)
qed

section \<open>Properties of the minutes\<close>

lemma length_concat_le:
  assumes "\<And>x. length (f x) \<le> 1"
  shows "length (concat (map f xs)) \<le> length xs"
proof (induction xs)
  case Nil
  then show ?case by simp
next
  case (Cons x xs)
  have "length (f x) \<le> 1" by (rule assms)
  with Cons show ?case by simp
qed

lemma length_parse_action_line: "length (parse_action_line line) \<le> 1"
  by (simp add: parse_action_line_def Let_def)

lemma length_llm_decisions: "length (extract_llm_decisions p t) \<le> 5"
  by (simp add: extract_llm_decisions_def extract_demo_decisions_def Let_def split: option.split)

lemma length_llm_action_items: "length (extract_llm_action_items p t) \<le> 5"
proof (cases "p (action_items_prompt t) 300 (3 / 10)")
  case None
  then show ?thesis
    by (simp add: extract_llm_action_items_def extract_demo_action_items_def)
next
  case (Some g)
  let ?lines = "take 5 (split_str nl (strip (last (split_str ''Action Items:'' g))))"
  have "length (concat (map parse_action_line ?lines)) \<le> length ?lines"
    by (rule length_concat_le) (rule length_parse_action_line)
  also have "\<dots> \<le> 5" by simp
  finally show ?thesis using Some
    by (simp add: extract_llm_action_items_def Let_def)
qed

lemma length_llm_next_steps: "length (extract_llm_next_steps p t) \<le> 5"
  by (simp add: extract_llm_next_steps_def extract_demo_next_steps_def Let_def split: option.split)

text \<open>
  Claim C3: every record returned by \<open>generate_minutes\<close>, with a working pipeline or
  in the demo mode, has the six fields \<open>meeting_info\<close>, \<open>summary\<close>, \<open>key_decisions\<close>,
  \<open>action_items\<close>, \<open>next_steps\<close> and \<open>full_transcript\<close>; each of the three lists has at
  most five entries; and \<open>full_transcript\<close> is the text of the input transcript.
\<close>

theorem C3_minutes_shape:
  "\<exists>info summary ds items ns.
     generate_minutes self md max_length =
       PDict [(''meeting_info'', info), (''summary'', PStr summary),
              (''key_decisions'', PList ds), (''action_items'', PList items),
              (''next_steps'', PList ns), (''full_transcript'', PStr (transcript_text md))]
     \<and> length ds \<le> 5 \<and> length items \<le> 5 \<and> length ns \<le> 5"
proof (cases "in_demo_mode self")
  case True
  then show ?thesis
    by (simp add: generate_minutes_def generate_demo_minutes_def Let_def
        extract_demo_decisions_def extract_demo_action_items_def extract_demo_next_steps_def)
next
  case False
  then show ?thesis
    by (simp add: generate_minutes_def Let_def
        length_llm_decisions length_llm_action_items length_llm_next_steps)
qed

text \<open>
  Claim C4: in the demo mode \<open>generate_minutes\<close> is deterministic. Whatever the two
  summarizer objects are, and whatever a pipeline that one of them may hold would answer,
  two calls in demo mode on the same meeting data and length return the same record,
  hence the same summary, decisions, action items and next steps.
\<close>

theorem C4_demo_deterministic:
  assumes "in_demo_mode a" and "in_demo_mode b"
  shows "generate_minutes a md max_length = generate_minutes b md max_length"
  using assms by (simp add: generate_minutes_def Let_def)

theorem C4_demo_deterministic_witness:
  "in_demo_mode \<lparr>model_is_demo = True, pipeline = None\<rparr>
   \<and> in_demo_mode \<lparr>model_is_demo = True, pipeline = Some (\<lambda>prompt n t. Some ''Summary: none'')\<rparr>
   \<and> generate_minutes \<lparr>model_is_demo = True, pipeline = None\<rparr>
        \<lparr>md_title = Some ''Sprint Review'', md_date = Some ''2024-01-15'',
         md_participants = Some [''Ann'', ''Ben''],
         md_transcript = Some \<lparr>tr_text = Some ''hello world''\<rparr>\<rparr> 500
     = generate_minutes \<lparr>model_is_demo = True, pipeline = Some (\<lambda>prompt n t. Some ''Summary: none'')\<rparr>
        \<lparr>md_title = Some ''Sprint Review'', md_date = Some ''2024-01-15'',
         md_participants = Some [''Ann'', ''Ben''],
         md_transcript = Some \<lparr>tr_text = Some ''hello world''\<rparr>\<rparr> 500"
proof -
  have a: "in_demo_mode \<lparr>model_is_demo = True, pipeline = None\<rparr>"
    by (simp add: in_demo_mode_def)
  have b: "in_demo_mode \<lparr>model_is_demo = True, pipeline = Some (\<lambda>prompt n t. Some ''Summary: none'')\<rparr>"
    by (simp add: in_demo_mode_def)
  show ?thesis using a b C4_demo_deterministic[OF a b] by simp
qed

section \<open>Properties of the export\<close>

subsection \<open>Dispatch on the format\<close>

lemma outputs_loop_dom:
  "outputs_loop h p m fs acc = Inr out \<Longrightarrow>
     dom out = dom acc \<union> (set fs \<inter> {''JSON'', ''HTML'', ''PDF''})"
proof (induction fs arbitrary: acc)
  case Nil
  then show ?case by simp
next
  case (Cons f fs)
  show ?case
  proof (cases "f = ''JSON''")
    case True
    with Cons.prems have "outputs_loop h p m fs (acc(''JSON'' \<mapsto> generate_json m)) = Inr out"
      by simp
    from Cons.IH[OF this] True show ?thesis by (auto split: if_splits)
  next
    case nj: False
    show ?thesis
    proof (cases "f = ''HTML''")
      case True
      with Cons.prems obtain b where b: "h m = Inr b"
        and r: "outputs_loop h p m fs (acc(''HTML'' \<mapsto> b)) = Inr out"
        by (auto split: sum.splits)
      from Cons.IH[OF r] True show ?thesis by (auto split: if_splits)
    next
      case nh: False
      show ?thesis
      proof (cases "f = ''PDF''")
        case True
        with Cons.prems obtain b where b: "p m = Inr b"
          and r: "outputs_loop h p m fs (acc(''PDF'' \<mapsto> b)) = Inr out"
          by (auto split: sum.splits)
        from Cons.IH[OF r] True show ?thesis by (auto split: if_splits)
      next
        case False
        with nj nh Cons.prems have "outputs_loop h p m fs acc = Inr out" by simp
        from Cons.IH[OF this] nj nh False show ?thesis by auto
      qed
    qed
  qed
qed

lemma outputs_loop_filter:
  "outputs_loop h p m (filter (\<lambda>f. f \<in> {''JSON'', ''HTML'', ''PDF''}) fs) acc
     = outputs_loop h p m fs acc"
  by (induction fs arbitrary: acc) (auto split: sum.splits)

lemma generate_json_empty: "generate_json (PDict []) = [123, 125]"
  by (simp add: generate_json_def json_dumps_def utf8_encode_def utf8_char_def bullet_def)

text \<open>
  Claim C6: for every record and every list of requested formats, \<open>generate_outputs\<close>
  makes an entry only for \<open>JSON\<close>, \<open>HTML\<close> and \<open>PDF\<close>: a returned dictionary has exactly
  the requested ones among these three as keys; any other identifier is skipped without
  error (removing such identifiers from the request changes nothing); and the request
  \<open>["UNKNOWN"]\<close> returns the empty dictionary. This holds whatever the HTML and the
  text renderer do.
\<close>

theorem C6_generate_outputs_dispatch:
  "(generate_outputs h p m fs = Inr outputs \<longrightarrow>
      dom outputs = set fs \<inter> {''JSON'', ''HTML'', ''PDF''})
   \<and> generate_outputs h p m (filter (\<lambda>f. f \<in> {''JSON'', ''HTML'', ''PDF''}) fs)
       = generate_outputs h p m fs
   \<and> generate_outputs h p m [''UNKNOWN''] = Inr Map.empty"
proof -
  have "generate_outputs h p m fs = Inr outputs \<longrightarrow>
      dom outputs = set fs \<inter> {''JSON'', ''HTML'', ''PDF''}"
    using outputs_loop_dom[of h p m fs Map.empty outputs]
    by (simp add: generate_outputs_def)
  moreover have "generate_outputs h p m (filter (\<lambda>f. f \<in> {''JSON'', ''HTML'', ''PDF''}) fs)
       = generate_outputs h p m fs"
    by (simp only: generate_outputs_def outputs_loop_filter)
  moreover have "generate_outputs h p m [''UNKNOWN''] = Inr Map.empty"
    by (simp add: generate_outputs_def)
  ultimately show ?thesis by blast
qed

theorem C6_generate_outputs_dispatch_witness:
  "generate_outputs (\<lambda>m. Inr [60]) (\<lambda>m. Inl (Raised ''no renderer'')) (PDict [])
       [''JSON'', ''UNKNOWN'', ''HTML'']
     = Inr [''JSON'' \<mapsto> [123, 125], ''HTML'' \<mapsto> [60]]
   \<and> dom [''JSON'' \<mapsto> [123, 125], ''HTML'' \<mapsto> [60::nat]] = {''JSON'', ''HTML''}"
proof -
  have r: "generate_outputs (\<lambda>m. Inr [60]) (\<lambda>m. Inl (Raised ''no renderer'')) (PDict [])
       [''JSON'', ''UNKNOWN'', ''HTML'']
     = Inr [''JSON'' \<mapsto> [123, 125], ''HTML'' \<mapsto> [60]]"
    by (simp add: generate_outputs_def generate_json_empty)
  show ?thesis
    using r C6_generate_outputs_dispatch[of "\<lambda>m. Inr [60]" "\<lambda>m. Inl (Raised ''no renderer'')"
        "PDict []" "[''JSON'', ''UNKNOWN'', ''HTML'']" "[''JSON'' \<mapsto> [123, 125], ''HTML'' \<mapsto> [60]]"]
    by auto
qed

subsection \<open>UTF-8 is read back\<close>

lemma two_byte_lead:
  assumes "128 \<le> n" and "n < 256"
  shows "192 + n div 64 = 194 \<or> 192 + n div 64 = (195::nat)"
proof -
  have "2 \<le> n div 64" using assms(1) by (simp add: le_div_geq)
  moreover have "n div 64 < 4" using assms(2) by (simp add: div_less_iff_less_mult)
  ultimately show ?thesis by linarith
qed

lemma two_byte_value: "(192 + n div 64 - 192) * 64 + (128 + n mod 64 - 128) = (n::nat)"
  by simp

lemma utf8_decode_two:
  assumes "b = 194 \<or> b = (195::nat)" and "128 \<le> b2" and "b2 < 192"
    and "(b - 192) * 64 + (b2 - 128) \<noteq> 149"
  shows "utf8_decode (b # b2 # rest)
           = map_option (\<lambda>s. char_of ((b - 192) * 64 + (b2 - 128)) # s) (utf8_decode rest)"
  using assms by (subst utf8_decode.simps) auto

lemma utf8_decode_char:
  "utf8_decode (utf8_char c @ rest) = map_option (\<lambda>s. c # s) (utf8_decode rest)"
proof (cases "c = bullet")
  case True
  then show ?thesis by (simp add: utf8_char_def)
next
  case nb: False
  define n where "n = (of_char c :: nat)"
  have c: "char_of n = c" by (simp add: n_def)
  have n95: "n \<noteq> 149"
  proof
    assume "n = 149"
    moreover have "(of_char bullet :: nat) = 149" by (simp add: bullet_def)
    ultimately have "(of_char c :: nat) = of_char bullet" by (simp add: n_def)
    then have "c = bullet" by (simp only: of_char_eq_iff)
    with nb show False by simp
  qed
  have lt: "n < 256" unfolding n_def by (rule nat_of_char_less_256)
  show ?thesis
  proof (cases "n < 128")
    case True
    then have "utf8_char c = [n]" using nb by (simp add: utf8_char_def Let_def n_def)
    then show ?thesis using True c by simp
  next
    case False
    then have ge: "128 \<le> n" by simp
    have enc: "utf8_char c = [192 + n div 64, 128 + n mod 64]"
      using nb False by (simp add: utf8_char_def Let_def n_def)
    have "utf8_decode ((192 + n div 64) # (128 + n mod 64) # rest)
           = map_option (\<lambda>s. char_of ((192 + n div 64 - 192) * 64 + (128 + n mod 64 - 128)) # s)
               (utf8_decode rest)"
    proof (rule utf8_decode_two)
      show "192 + n div 64 = 194 \<or> 192 + n div 64 = 195" by (rule two_byte_lead[OF ge lt])
      show "128 \<le> 128 + n mod 64" by simp
      show "128 + n mod 64 < 192" by simp
      show "(192 + n div 64 - 192) * 64 + (128 + n mod 64 - 128) \<noteq> 149"
        using n95 by (simp only: two_byte_value not_False_eq_True)
    qed
    then show ?thesis by (simp only: enc two_byte_value c append_Cons append_Nil)
  qed
qed

lemma utf8_roundtrip: "utf8_decode (utf8_encode s) = Some s"
proof (induction s)
  case Nil
  show ?case by (simp add: utf8_encode_def)
next
  case (Cons c s)
  have "utf8_encode (c # s) = utf8_char c @ utf8_encode s" by (simp add: utf8_encode_def)
  then show ?case using Cons by (simp only: utf8_decode_char) simp
qed

subsection \<open>Escaped text is read back\<close>

lemma hex_digits_all: "list_all (\<lambda>d. hex_value (hex_digit d) = Some d) [0..<16]"
  by code_simp

lemma hex_value_digit: "d < 16 \<Longrightarrow> hex_value (hex_digit d) = Some d"
  using hex_digits_all by (simp add: list_all_iff)

lemma hex_value_zero: "hex_value CHR ''0'' = Some 0"
  by (simp add: hex_value_def)

lemma char_of_code_char:
  assumes "c \<noteq> bullet"
  shows "char_of_code (of_char c) = Some c"
proof -
  have "(of_char c :: nat) \<noteq> of_char bullet"
    using assms by (simp only: of_char_eq_iff not_False_eq_True)
  moreover have "(of_char bullet :: nat) = 149" by (simp add: bullet_def)
  ultimately have "(of_char c :: nat) \<noteq> 149" by simp
  moreover have "(of_char c :: nat) \<noteq> 8226"
  proof -
    have "(of_char c :: nat) < 256" by (rule nat_of_char_less_256)
    then show ?thesis by linarith
  qed
  ultimately show ?thesis by (simp add: char_of_code_def)
qed

lemma decode_u4_control:
  assumes "(of_char c :: nat) < 32"
  shows "decode_u4 CHR ''0'' CHR ''0'' (hex_digit ((of_char c :: nat) div 16))
           (hex_digit ((of_char c :: nat) mod 16)) = Some c"
proof -
  let ?n = "of_char c :: nat"
  have nb: "c \<noteq> bullet"
  proof
    assume "c = bullet"
    then have "?n = 149" by (simp add: bullet_def)
    with assms show False by simp
  qed
  have h1: "hex_value (hex_digit (?n div 16)) = Some (?n div 16)"
    using assms by (intro hex_value_digit) simp
  have h0: "hex_value (hex_digit (?n mod 16)) = Some (?n mod 16)"
    by (intro hex_value_digit) simp
  have "((0 * 16 + 0) * 16 + ?n div 16) * 16 + ?n mod 16 = ?n" by simp
  then show ?thesis
    unfolding decode_u4_def by (simp only: hex_value_zero h1 h0 prod.case option.case char_of_code_char[OF nb])
qed

lemma scanstring_escape:
  "scanstring (escape_char c @ t) = cons_result c (scanstring t)"
proof -
  consider (bs) "c = bs" | (dq) "c = CHR 0x22" | (b) "c = CHR 0x08" | (f) "c = CHR 0x0C"
    | (n) "c = CHR 0x0A" | (r) "c = CHR 0x0D" | (t) "c = CHR 0x09"
    | (u) "c \<noteq> bs" "c \<noteq> CHR 0x22" "c \<noteq> CHR 0x08" "c \<noteq> CHR 0x0C" "c \<noteq> CHR 0x0A"
          "c \<noteq> CHR 0x0D" "c \<noteq> CHR 0x09" "(of_char c :: nat) < 32"
    | (plain) "c \<noteq> bs" "c \<noteq> CHR 0x22" "c \<noteq> CHR 0x08" "c \<noteq> CHR 0x0C" "c \<noteq> CHR 0x0A"
          "c \<noteq> CHR 0x0D" "c \<noteq> CHR 0x09" "\<not> (of_char c :: nat) < 32"
    by blast
  then show ?thesis
  proof cases
    case bs
    then show ?thesis by (simp add: escape_char_def bs_def backslash_def)
  next
    case dq
    then show ?thesis by (simp add: escape_char_def bs_def backslash_def)
  next
    case b
    then show ?thesis by (simp add: escape_char_def bs_def backslash_def)
  next
    case f
    then show ?thesis by (simp add: escape_char_def bs_def backslash_def)
  next
    case n
    then show ?thesis by (simp add: escape_char_def bs_def backslash_def)
  next
    case r
    then show ?thesis by (simp add: escape_char_def bs_def backslash_def)
  next
    case t
    then show ?thesis by (simp add: escape_char_def bs_def backslash_def)
  next
    case u
    have e: "escape_char c = [bs, CHR ''u'', CHR ''0'', CHR ''0'',
            hex_digit ((of_char c :: nat) div 16), hex_digit ((of_char c :: nat) mod 16)]"
      using u by (simp add: escape_char_def)
    show ?thesis
      unfolding e using decode_u4_control[OF u(8)] by (simp add: bs_def)
  next
    case plain
    have e: "escape_char c = [c]" using plain by (simp add: escape_char_def)
    show ?thesis unfolding e using plain by simp
  qed
qed

lemma scanstring_escaped:
  "scanstring (concat (map escape_char s) @ CHR 0x22 # rest) = Some (s, rest)"
proof (induction s)
  case Nil
  show ?case by simp
next
  case (Cons c s)
  have "scanstring (concat (map escape_char (c # s)) @ CHR 0x22 # rest)
          = scanstring (escape_char c @ (concat (map escape_char s) @ CHR 0x22 # rest))"
    by simp
  also have "\<dots> = cons_result c (scanstring (concat (map escape_char s) @ CHR 0x22 # rest))"
    by (rule scanstring_escape)
  also have "\<dots> = Some (c # s, rest)"
    by (simp only: Cons) (simp add: cons_result_def)
  finally show ?case .
qed

subsection \<open>An encoded value is read back\<close>

lemma skip_ws_newline_indent: "skip_ws (newline_indent l @ s) = skip_ws s"
  unfolding skip_ws_def
  by (rule dropWhile_append2) (auto simp: newline_indent_def nl_def is_json_ws_def)

lemma skip_ws_space: "skip_ws (CHR '' '' # s) = skip_ws s"
  by (simp add: skip_ws_def is_json_ws_def)

lemma skip_ws_Cons: "\<not> is_json_ws c \<Longrightarrow> skip_ws (c # s) = c # s"
  by (simp add: skip_ws_def)

lemma skip_ws_Nil: "skip_ws [] = []"
  by (simp add: skip_ws_def)

lemma iterencode_head:
  "\<exists>c t. iterencode l v = c # t \<and> (c = CHR 0x22 \<or> c = CHR ''['' \<or> c = CHR ''{'')"
  by (cases v) (simp_all add: encode_basestring_def dq_def)

lemma skip_ws_iterencode: "skip_ws (iterencode l v @ r) = iterencode l v @ r"
proof -
  from iterencode_head[of l v] obtain c t where
    e: "iterencode l v = c # t" and c: "c = CHR 0x22 \<or> c = CHR ''['' \<or> c = CHR ''{''" by blast
  from c have "\<not> is_json_ws c" by (auto simp: is_json_ws_def)
  then show ?thesis by (simp add: e skip_ws_Cons)
qed

lemma join_Cons: "join sep (x # ys) = x @ concat (map (\<lambda>y. sep @ y) ys)"
  by (induction ys arbitrary: x) simp_all

lemma dict_of_pairs_aux:
  "distinct (map fst (acc @ ps)) \<Longrightarrow> foldl (\<lambda>d (k, v). dict_set d k v) acc ps = acc @ ps"
proof (induction ps arbitrary: acc)
  case Nil
  then show ?case by simp
next
  case (Cons p ps)
  obtain k v where p: "p = (k, v)" by (cases p)
  from Cons.prems have "k \<notin> set (map fst acc)" by (simp add: p)
  then have s: "dict_set acc k v = acc @ [(k, v)]" by (simp add: dict_set_def)
  from Cons.prems have "distinct (map fst ((acc @ [(k, v)]) @ ps))" by (simp add: p)
  from Cons.IH[OF this] show ?case by (simp add: p s)
qed

lemma dict_of_pairs_distinct: "distinct (map fst ps) \<Longrightarrow> dict_of_pairs ps = ps"
  using dict_of_pairs_aux[of "[]" ps] by (simp add: dict_of_pairs_def)

lemma parse_value_string:
  "parse_value (Suc n) (encode_basestring s @ rest) = Some (PStr s, rest)"
proof -
  have "encode_basestring s @ rest = CHR 0x22 # (concat (map escape_char s) @ CHR 0x22 # rest)"
    by (simp add: encode_basestring_def dq_def)
  then show ?thesis by (simp add: scanstring_escaped)
qed

lemma parse_array_items:
  assumes IH: "\<And>y l n rest. y \<in> set (x # ys) \<Longrightarrow> python_value y \<Longrightarrow>
      length (iterencode l y) \<le> n \<Longrightarrow> parse_value n (iterencode l y @ rest) = Some (y, rest)"
    and wf: "list_all python_value (x # ys)"
    and fuel: "length (iterencode (Suc l) x)
        + length (concat (map (\<lambda>y. CHR '','' # newline_indent (Suc l) @ iterencode (Suc l) y) ys)) < n"
  shows "parse_array n (iterencode (Suc l) x
        @ concat (map (\<lambda>y. CHR '','' # newline_indent (Suc l) @ iterencode (Suc l) y) ys)
        @ newline_indent l @ CHR '']'' # rest) = Some (x # ys, rest)"
  using assms
proof (induction ys arbitrary: x n)
  case Nil
  from Nil.prems(3) obtain m where n: "n = Suc m" and m: "length (iterencode (Suc l) x) \<le> m"
    by (cases n) simp_all
  have pv: "parse_value m (iterencode (Suc l) x @ (newline_indent l @ CHR '']'' # rest))
      = Some (x, newline_indent l @ CHR '']'' # rest)"
    using Nil.prems(2) by (intro Nil.prems(1)[OF _ _ m]) simp_all
  have sk: "skip_ws (newline_indent l @ CHR '']'' # rest) = CHR '']'' # rest"
    by (simp add: skip_ws_newline_indent skip_ws_Cons is_json_ws_def)
  show ?case by (simp add: n pv sk)
next
  case (Cons y ys)
  let ?sep = "CHR '','' # newline_indent (Suc l)"
  let ?tail = "concat (map (\<lambda>y. CHR '','' # newline_indent (Suc l) @ iterencode (Suc l) y) ys)
        @ newline_indent l @ CHR '']'' # rest"
  from Cons.prems(3) obtain m where n: "n = Suc m"
    and m: "length (iterencode (Suc l) x) \<le> m"
    and m': "length (iterencode (Suc l) y)
        + length (concat (map (\<lambda>y. CHR '','' # newline_indent (Suc l) @ iterencode (Suc l) y) ys)) < m"
    by (cases n) simp_all
  have pv: "parse_value m (iterencode (Suc l) x @ (CHR '','' # newline_indent (Suc l) @ iterencode (Suc l) y @ ?tail))
      = Some (x, CHR '','' # newline_indent (Suc l) @ iterencode (Suc l) y @ ?tail)"
    using Cons.prems(2) by (intro Cons.prems(1)[OF _ _ m]) simp_all
  have sk1: "skip_ws (CHR '','' # newline_indent (Suc l) @ iterencode (Suc l) y @ ?tail)
      = CHR '','' # newline_indent (Suc l) @ iterencode (Suc l) y @ ?tail"
    by (simp add: skip_ws_Cons is_json_ws_def)
  have sk2: "skip_ws (newline_indent (Suc l) @ iterencode (Suc l) y @ ?tail) = iterencode (Suc l) y @ ?tail"
    by (simp only: skip_ws_newline_indent skip_ws_iterencode)
  have rec: "parse_array m (iterencode (Suc l) y @ ?tail) = Some (y # ys, rest)"
  proof (rule Cons.IH[OF _ _ m'])
    show "\<And>z l n rest. z \<in> set (y # ys) \<Longrightarrow> python_value z \<Longrightarrow>
      length (iterencode l z) \<le> n \<Longrightarrow> parse_value n (iterencode l z @ rest) = Some (z, rest)"
      by (rule Cons.prems(1)) simp_all
    show "list_all python_value (y # ys)" using Cons.prems(2) by simp
  qed
  have "parse_array n (iterencode (Suc l) x @ (CHR '','' # newline_indent (Suc l) @ iterencode (Suc l) y @ ?tail))
      = Some (x # y # ys, rest)"
    unfolding n by (subst parse_array.simps) (simp add: pv sk1 sk2 rec)
  then show ?case by simp
qed

lemma parse_object_pairs:
  assumes IH: "\<And>k' v' l n rest. (k', v') \<in> set ((k, v) # ps) \<Longrightarrow> python_value v' \<Longrightarrow>
      length (iterencode l v') \<le> n \<Longrightarrow> parse_value n (iterencode l v' @ rest) = Some (v', rest)"
    and wf: "list_all (\<lambda>(k', v'). python_value v') ((k, v) # ps)"
    and fuel: "length (iterencode (Suc l) v)
        + length (concat (map (\<lambda>(k', v'). CHR '','' # newline_indent (Suc l)
                     @ encode_basestring k' @ CHR '':'' # CHR '' '' # iterencode (Suc l) v') ps)) < n"
  shows "parse_object n (concat (map escape_char k) @ CHR 0x22 # CHR '':'' # CHR '' '' # iterencode (Suc l) v
        @ concat (map (\<lambda>(k', v'). CHR '','' # newline_indent (Suc l)
                     @ encode_basestring k' @ CHR '':'' # CHR '' '' # iterencode (Suc l) v') ps)
        @ newline_indent l @ CHR ''}'' # rest) = Some ((k, v) # ps, rest)"
  using assms
proof (induction ps arbitrary: k v n)
  case Nil
  let ?after = "newline_indent l @ CHR ''}'' # rest"
  from Nil.prems(3) obtain m where n: "n = Suc m" and m: "length (iterencode (Suc l) v) \<le> m"
    by (cases n) simp_all
  have sc: "scanstring (concat (map escape_char k) @ CHR 0x22 # (CHR '':'' # CHR '' '' # iterencode (Suc l) v @ ?after))
      = Some (k, CHR '':'' # CHR '' '' # iterencode (Suc l) v @ ?after)"
    by (rule scanstring_escaped)
  have sk0: "skip_ws (CHR '':'' # CHR '' '' # iterencode (Suc l) v @ ?after)
      = CHR '':'' # CHR '' '' # iterencode (Suc l) v @ ?after"
    by (simp add: skip_ws_Cons is_json_ws_def)
  have sk1: "skip_ws (CHR '' '' # iterencode (Suc l) v @ ?after) = iterencode (Suc l) v @ ?after"
    by (simp only: skip_ws_space skip_ws_iterencode)
  have pv: "parse_value m (iterencode (Suc l) v @ ?after) = Some (v, ?after)"
    using Nil.prems(2) by (intro Nil.prems(1)[of k v, OF _ _ m]) simp_all
  have sk2: "skip_ws ?after = CHR ''}'' # rest"
    by (simp add: skip_ws_newline_indent skip_ws_Cons is_json_ws_def)
  show ?case
    unfolding n by (subst parse_object.simps) (simp add: sc sk0 sk1 pv sk2)
next
  case (Cons p ps)
  obtain k2 v2 where p: "p = (k2, v2)" by (cases p)
  let ?rest_pairs = "concat (map (\<lambda>(k', v'). CHR '','' # newline_indent (Suc l)
                     @ encode_basestring k' @ CHR '':'' # CHR '' '' # iterencode (Suc l) v') ps)
        @ newline_indent l @ CHR ''}'' # rest"
  let ?next = "concat (map escape_char k2) @ CHR 0x22 # CHR '':'' # CHR '' '' # iterencode (Suc l) v2 @ ?rest_pairs"
  let ?after = "CHR '','' # newline_indent (Suc l) @ CHR 0x22 # ?next"
  from Cons.prems(3) obtain m where n: "n = Suc m"
    and m: "length (iterencode (Suc l) v) \<le> m"
    and m': "length (iterencode (Suc l) v2)
        + length (concat (map (\<lambda>(k', v'). CHR '','' # newline_indent (Suc l)
                     @ encode_basestring k' @ CHR '':'' # CHR '' '' # iterencode (Suc l) v') ps)) < m"
    by (cases n) (simp_all add: p)
  have sc: "scanstring (concat (map escape_char k) @ CHR 0x22 # (CHR '':'' # CHR '' '' # iterencode (Suc l) v @ ?after))
      = Some (k, CHR '':'' # CHR '' '' # iterencode (Suc l) v @ ?after)"
    by (rule scanstring_escaped)
  have sk0: "skip_ws (CHR '':'' # CHR '' '' # iterencode (Suc l) v @ ?after)
      = CHR '':'' # CHR '' '' # iterencode (Suc l) v @ ?after"
    by (simp add: skip_ws_Cons is_json_ws_def)
  have sk1: "skip_ws (CHR '' '' # iterencode (Suc l) v @ ?after) = iterencode (Suc l) v @ ?after"
    by (simp only: skip_ws_space skip_ws_iterencode)
  have pv: "parse_value m (iterencode (Suc l) v @ ?after) = Some (v, ?after)"
    using Cons.prems(2) by (intro Cons.prems(1)[of k v, OF _ _ m]) simp_all
  have sk2: "skip_ws ?after = ?after"
    by (simp add: skip_ws_Cons is_json_ws_def)
  have sk3: "skip_ws (newline_indent (Suc l) @ CHR 0x22 # ?next) = CHR 0x22 # ?next"
    by (simp add: skip_ws_newline_indent skip_ws_Cons is_json_ws_def)
  have rec: "parse_object m ?next = Some ((k2, v2) # ps, rest)"
  proof (rule Cons.IH[OF _ _ m'])
    show "\<And>k' v' l n rest. (k', v') \<in> set ((k2, v2) # ps) \<Longrightarrow> python_value v' \<Longrightarrow>
      length (iterencode l v') \<le> n \<Longrightarrow> parse_value n (iterencode l v' @ rest) = Some (v', rest)"
    proof -
      fix k' v' l n rest
      assume a: "(k', v') \<in> set ((k2, v2) # ps)" and b: "python_value v'"
        and c: "length (iterencode l v') \<le> n"
      from a have "(k', v') \<in> set ((k, v) # p # ps)" by (simp add: p)
      from Cons.prems(1)[OF this b c]
      show "parse_value n (iterencode l v' @ rest) = Some (v', rest)" .
    qed
    show "list_all (\<lambda>(k', v'). python_value v') ((k2, v2) # ps)"
      using Cons.prems(2) by (simp add: p)
  qed
  have "parse_object n (concat (map escape_char k) @ CHR 0x22 # CHR '':'' # CHR '' '' # iterencode (Suc l) v @ ?after)
      = Some ((k, v) # (k2, v2) # ps, rest)"
    unfolding n by (subst parse_object.simps) (simp add: sc sk0 sk1 pv sk2 sk3 rec)
  then show ?case by (simp add: p encode_basestring_def dq_def)
qed

lemma iterencode_PList:
  "iterencode l (PList (x # ys)) =
     CHR ''['' # newline_indent (Suc l) @ iterencode (Suc l) x
       @ concat (map (\<lambda>y. CHR '','' # newline_indent (Suc l) @ iterencode (Suc l) y) ys)
       @ newline_indent l @ '']''"
  by (simp add: join_Cons comp_def del: join.simps)

lemma iterencode_PDict:
  "iterencode l (PDict ((k, v) # ps)) =
     CHR ''{'' # newline_indent (Suc l) @ CHR 0x22 # concat (map escape_char k)
       @ CHR 0x22 # CHR '':'' # CHR '' '' # iterencode (Suc l) v
       @ concat (map (\<lambda>(k', v'). CHR '','' # newline_indent (Suc l)
                     @ encode_basestring k' @ CHR '':'' # CHR '' '' # iterencode (Suc l) v') ps)
       @ newline_indent l @ ''}''"
  by (simp add: join_Cons comp_def case_prod_unfold encode_basestring_def dq_def del: join.simps)

lemma parse_value_iterencode:
  "python_value v \<Longrightarrow> length (iterencode l v) \<le> n \<Longrightarrow>
     parse_value n (iterencode l v @ rest) = Some (v, rest)"
proof (induction v arbitrary: l n rest)
  case (PStr s)
  from PStr.prems(2) obtain m where "n = Suc m"
    by (cases n) (simp_all add: encode_basestring_def dq_def)
  then show ?case by (simp only: iterencode.simps parse_value_string)
next
  case (PList xs)
  show ?case
  proof (cases xs)
    case Nil
    from PList.prems(2) obtain m where "n = Suc m" by (cases n) (simp_all add: Nil)
    then show ?thesis by (simp add: Nil skip_ws_def is_json_ws_def)
  next
    case (Cons x ys)
    let ?items = "iterencode (Suc l) x
       @ concat (map (\<lambda>y. CHR '','' # newline_indent (Suc l) @ iterencode (Suc l) y) ys)
       @ newline_indent l @ CHR '']'' # rest"
    from PList.prems(2) obtain m where n: "n = Suc m"
      and m: "length (iterencode (Suc l) x)
        + length (concat (map (\<lambda>y. CHR '','' # newline_indent (Suc l) @ iterencode (Suc l) y) ys)) < m"
      unfolding Cons iterencode_PList by (cases n) simp_all
    have items: "parse_array m ?items = Some (x # ys, rest)"
    proof (rule parse_array_items[OF _ _ m])
      show "\<And>y l n rest. y \<in> set (x # ys) \<Longrightarrow> python_value y \<Longrightarrow>
        length (iterencode l y) \<le> n \<Longrightarrow> parse_value n (iterencode l y @ rest) = Some (y, rest)"
        using PList.IH by (simp only: Cons)
      show "list_all python_value (x # ys)" using PList.prems(1) by (simp add: Cons)
    qed
    from iterencode_head[of "Suc l" x] obtain c t where
      e: "iterencode (Suc l) x = c # t" and c: "c = CHR 0x22 \<or> c = CHR ''['' \<or> c = CHR ''{''"
      by blast
    have sk: "skip_ws (newline_indent (Suc l) @ ?items) = ?items"
      by (simp only: skip_ws_newline_indent skip_ws_iterencode)
    obtain r1 where hd: "?items = c # r1" by (simp add: e)
    have ne: "c \<noteq> CHR '']''" using c by auto
    have "parse_value (Suc m) (CHR ''['' # newline_indent (Suc l) @ ?items) = Some (PList (x # ys), rest)"
      apply (subst parse_value.simps)
      apply (simp only: list.case sk)
      apply (simp only: hd list.case)
      using items ne by (simp add: hd)
    then show ?thesis by (simp only: Cons n iterencode_PList) simp
  qed
next
  case (PDict kvs)
  show ?case
  proof (cases kvs)
    case Nil
    from PDict.prems(2) obtain m where "n = Suc m" by (cases n) (simp_all add: Nil)
    then show ?thesis by (simp add: Nil skip_ws_def is_json_ws_def)
  next
    case (Cons p ps)
    obtain k v where p: "p = (k, v)" by (cases p)
    let ?pairs = "concat (map escape_char k) @ CHR 0x22 # CHR '':'' # CHR '' '' # iterencode (Suc l) v
       @ concat (map (\<lambda>(k', v'). CHR '','' # newline_indent (Suc l)
                     @ encode_basestring k' @ CHR '':'' # CHR '' '' # iterencode (Suc l) v') ps)
       @ newline_indent l @ CHR ''}'' # rest"
    from PDict.prems(2) obtain m where n: "n = Suc m"
      and m: "length (iterencode (Suc l) v)
        + length (concat (map (\<lambda>(k', v'). CHR '','' # newline_indent (Suc l)
                     @ encode_basestring k' @ CHR '':'' # CHR '' '' # iterencode (Suc l) v') ps)) < m"
      unfolding Cons p iterencode_PDict by (cases n) simp_all
    have pairs: "parse_object m ?pairs = Some ((k, v) # ps, rest)"
    proof (rule parse_object_pairs[OF _ _ m])
      show "\<And>k' v' l n rest. (k', v') \<in> set ((k, v) # ps) \<Longrightarrow> python_value v' \<Longrightarrow>
        length (iterencode l v') \<le> n \<Longrightarrow> parse_value n (iterencode l v' @ rest) = Some (v', rest)"
      proof -
        fix k' v' l n rest
        assume "(k', v') \<in> set ((k, v) # ps)" and "python_value v'"
          and "length (iterencode l v') \<le> n"
        then show "parse_value n (iterencode l v' @ rest) = Some (v', rest)"
          using PDict.IH[of "(k', v')" v' l n rest] by (simp add: Cons p)
      qed
      show "list_all (\<lambda>(k', v'). python_value v') ((k, v) # ps)"
        using PDict.prems(1) by (simp add: Cons p)
    qed
    have d: "dict_of_pairs ((k, v) # ps) = (k, v) # ps"
      using PDict.prems(1) by (intro dict_of_pairs_distinct) (simp add: Cons p)
    have sk: "skip_ws (newline_indent (Suc l) @ CHR 0x22 # ?pairs) = CHR 0x22 # ?pairs"
      by (simp add: skip_ws_newline_indent skip_ws_Cons is_json_ws_def)
    have "parse_value (Suc m) (CHR ''{'' # newline_indent (Suc l) @ CHR 0x22 # ?pairs)
        = Some (PDict ((k, v) # ps), rest)"
      by (subst parse_value.simps) (simp add: sk pairs d)
    then show ?thesis by (simp only: Cons p n iterencode_PDict) simp
  qed
qed

lemma json_roundtrip: "python_value v \<Longrightarrow> json_loads (json_dumps v) = Some v"
  using parse_value_iterencode[of v 0 "Suc (length (iterencode 0 v))" "[]"]
  by (simp add: json_loads_def json_dumps_def skip_ws_iterencode[of 0 v "[]", simplified] skip_ws_Nil)

subsection \<open>The JSON payload of a record\<close>

lemma python_value_strs: "list_all python_value (map PStr xs)"
  by (induction xs) simp_all

lemma python_value_action_item: "python_value (action_item a b c d)"
  by (simp add: action_item_def)

lemma python_value_parse_action_line: "list_all python_value (parse_action_line line)"
  by (simp add: parse_action_line_def Let_def python_value_action_item)

lemma python_value_llm_action_items: "list_all python_value (extract_llm_action_items p t)"
proof (cases "p (action_items_prompt t) 300 (3 / 10)")
  case None
  then show ?thesis
    by (simp add: extract_llm_action_items_def extract_demo_action_items_def python_value_action_item)
next
  case (Some g)
  have "list_all python_value (concat (map parse_action_line ls))" for ls
    by (induction ls) (simp_all add: python_value_parse_action_line)
  then show ?thesis using Some by (simp add: extract_llm_action_items_def Let_def)
qed

lemma python_value_meeting_info: "python_value (meeting_info md t)"
  by (simp add: meeting_info_def python_value_strs)

lemma python_value_generate_minutes: "python_value (generate_minutes self md max_length)"
  by (simp add: generate_minutes_def generate_demo_minutes_def Let_def
      python_value_meeting_info python_value_strs python_value_llm_action_items
      extract_demo_action_items_def python_value_action_item)

lemma decode_generate_json:
  "python_value minutes \<Longrightarrow> decode_payload (generate_json minutes) = Some minutes"
  by (simp add: decode_payload_def generate_json_def utf8_roundtrip json_roundtrip)

text \<open>
  Claim C7: for every record, decoding the JSON payload of an export with the format list
  \<open>["JSON"]\<close> gives the record back: the export returns the payload of \<open>generate_json\<close>
  under the key \<open>JSON\<close>, and \<open>json.loads(payload.decode('utf-8'))\<close> is the record.
  A record is a Python value (the keys of each dictionary distinct); every record that
  \<open>generate_minutes\<close> returns is one, so its payload decodes to it. For the record with
  the title \<open>Test\<close>, one decision and one action item, the decoded payload has that
  title and one decision.
\<close>

theorem C7_json_roundtrip:
  "(python_value minutes \<longrightarrow>
      generate_outputs h p minutes [''JSON''] = Inr [''JSON'' \<mapsto> generate_json minutes]
      \<and> decode_payload (generate_json minutes) = Some minutes)
   \<and> decode_payload (generate_json (generate_minutes self md max_length))
       = Some (generate_minutes self md max_length)"
  by (simp add: decode_generate_json python_value_generate_minutes generate_outputs_def)

theorem C7_json_roundtrip_witness:
  "python_value test_minutes
   \<and> decode_payload (generate_json test_minutes) = Some test_minutes
   \<and> Option.bind (decode_payload (generate_json test_minutes))
         (\<lambda>m. Option.bind (dict_get m ''meeting_info'') (\<lambda>info. dict_get info ''title''))
       = Some (PStr ''Test'')
   \<and> Option.bind (decode_payload (generate_json test_minutes)) (\<lambda>m. dict_get m ''key_decisions'')
       = Some (PList [PStr ''Decision 1''])"
proof -
  have wf: "python_value test_minutes" by (simp add: test_minutes_def)
  have dec: "decode_payload (generate_json test_minutes) = Some test_minutes"
    using wf C7_json_roundtrip[of test_minutes "\<lambda>m. Inl (Raised [])" "\<lambda>m. Inl (Raised [])"]
    by simp
  have t: "Option.bind (dict_get test_minutes ''meeting_info'') (\<lambda>info. dict_get info ''title'')
       = Some (PStr ''Test'')"
    by (simp add: test_minutes_def dict_get_def)
  have d: "dict_get test_minutes ''key_decisions'' = Some (PList [PStr ''Decision 1''])"
    by (simp add: test_minutes_def dict_get_def)
  show ?thesis by (simp only: dec wf t d Option.bind.simps simp_thms)
qed

end
